theory Spec2Isabelle
  imports Complex_Main "HOL-Library.Multiset" "HOL-Library.Sublist"
begin

section \<open>Numbers\<close>

text \<open>
  The amounts, the total and the values a comparator returns are JavaScript Numbers,
  that is, IEEE-754 doubles. The model keeps the special values of the Number type apart
  and holds a finite value as the rational it denotes; the sign of zero is outside the
  model. \<open>add\<close> and \<open>sub\<close> below are the exact sum and difference. The sign of the
  difference of two finite doubles is the sign of their exact difference, so the
  comparators, which subtract and look at the sign, are modelled by \<open>sub\<close>. The sum that
  the program takes with \<^verbatim>\<open>+\<close> is the exact sum rounded to a double: it is \<open>add_rounded\<close>, defined
  with the host below.
\<close>

datatype number = NaN | NegInf | Fin rat | PosInf

text \<open>\<^verbatim>\<open>Number.isNaN(x)\<close>\<close>

fun isNaN :: "number \<Rightarrow> bool" where
  "isNaN NaN = True"
| "isNaN _ = False"

text \<open>\<^verbatim>\<open>x <= 0\<close>: a comparison with NaN is false.\<close>

fun le_zero :: "number \<Rightarrow> bool" where
  "le_zero NaN = False"
| "le_zero NegInf = True"
| "le_zero (Fin x) = (x \<le> 0)"
| "le_zero PosInf = False"

text \<open>\<^verbatim>\<open>x > 0\<close>\<close>

fun gt_zero :: "number \<Rightarrow> bool" where
  "gt_zero NaN = False"
| "gt_zero NegInf = False"
| "gt_zero (Fin x) = (0 < x)"
| "gt_zero PosInf = True"

text \<open>The exact sum, with the special values as \<^verbatim>\<open>x + y\<close> has them.\<close>

fun add :: "number \<Rightarrow> number \<Rightarrow> number" where
  "add NaN _ = NaN"
| "add _ NaN = NaN"
| "add PosInf NegInf = NaN"
| "add NegInf PosInf = NaN"
| "add PosInf _ = PosInf"
| "add _ PosInf = PosInf"
| "add NegInf _ = NegInf"
| "add _ NegInf = NegInf"
| "add (Fin x) (Fin y) = Fin (x + y)"

text \<open>The exact difference, with the special values as \<^verbatim>\<open>x - y\<close> has them.\<close>

fun neg :: "number \<Rightarrow> number" where
  "neg NaN = NaN"
| "neg NegInf = PosInf"
| "neg (Fin x) = Fin (- x)"
| "neg PosInf = NegInf"

definition sub :: "number \<Rightarrow> number \<Rightarrow> number" where
  "sub x y = add x (neg y)"

text \<open>\<^verbatim>\<open>Number(x || 0)\<close> for a Number \<open>x\<close>: NaN and zero are falsy.\<close>

fun or_zero :: "number \<Rightarrow> number" where
  "or_zero NaN = Fin 0"
| "or_zero x = x"

section \<open>Data model\<close>

text \<open>
  An earning is the object \<^verbatim>\<open>{ id, amount, date, note }\<close> that the form emits.
  The fields \<open>id\<close> and \<open>note\<close> carry a suffix, since the plain names are taken in
  Isabelle.
\<close>

record earning =
  id_e :: string
  amount :: number
  date :: string
  note_e :: string

text \<open>The two sort keys \<^verbatim>\<open>'date'\<close>, \<^verbatim>\<open>'amount'\<close> and directions \<^verbatim>\<open>'asc'\<close>, \<^verbatim>\<open>'desc'\<close>.\<close>

datatype sort_key = Date | Amount

datatype sort_dir = Asc | Desc

text \<open>The local state of \<^verbatim>\<open>DailyEarningsInput\<close>: the three text inputs.\<close>

record form =
  amount_s :: string
  date_s :: string
  note_s :: string

text \<open>
  What the code takes from its host: \<^verbatim>\<open>parseFloat\<close>, the conversion of a Number to a
  string (\<^verbatim>\<open>String(x)\<close>, and \<^verbatim>\<open>toFixed\<close> from \<open>10^21\<close> on),
  \<^verbatim>\<open>String.prototype.localeCompare\<close>, whose result depends on the locale, and the
  rounding of a rational to the nearest double (to an infinity when it is out of range).
  They are parameters of the model.
\<close>

record host =
  parseFloat :: "string \<Rightarrow> number"
  ToString :: "number \<Rightarrow> string"
  localeCompare :: "string \<Rightarrow> string \<Rightarrow> int"
  rounding :: "rat \<Rightarrow> number"

text \<open>\<^verbatim>\<open>x + y\<close>: the exact sum of two finite doubles, rounded.\<close>

definition add_rounded :: "host \<Rightarrow> number \<Rightarrow> number \<Rightarrow> number" where
  "add_rounded h x y = (case add x y of Fin r \<Rightarrow> rounding h r | v \<Rightarrow> v)"

text \<open>
  The state of \<^verbatim>\<open>App\<close> in the variant with pagination and sorting, together with the
  state of the form it renders. The basic variant has \<open>earnings\<close> and \<open>editing\<close> only.
\<close>

record app =
  earnings :: "earning list"
  editing :: "earning option"
  page :: int
  pageSize :: int
  sortBy :: sort_key
  sortDir :: sort_dir
  input :: form

section \<open>The ledger: reconcile and delete\<close>

text \<open>
  The updater that \<^verbatim>\<open>handleAdd\<close> passes to \<^verbatim>\<open>setEarnings\<close>:
  \<^verbatim>\<open>
  const exists = prev.some((p) => p.id === item.id);
  if (exists) { return prev.map((p) => (p.id === item.id ? item : p)); }
  return [item, ...prev];
  \<close>
\<close>

definition reconcile :: "earning \<Rightarrow> earning list \<Rightarrow> earning list" where
  "reconcile item prev =
     (let exists = list_ex (\<lambda>p. id_e p = id_e item) prev
      in if exists then map (\<lambda>p. if id_e p = id_e item then item else p) prev
         else item # prev)"

definition handleAdd :: "earning \<Rightarrow> app \<Rightarrow> app" where
  "handleAdd item s = s\<lparr>earnings := reconcile item (earnings s), editing := None\<rparr>"

text \<open>\<^verbatim>\<open>setEarnings((p) => p.filter((x) => x.id !== id))\<close>\<close>

definition remove_id :: "string \<Rightarrow> earning list \<Rightarrow> earning list" where
  "remove_id k p = filter (\<lambda>x. id_e x \<noteq> k) p"

definition handleDelete :: "string \<Rightarrow> app \<Rightarrow> app" where
  "handleDelete k s = s\<lparr>earnings := remove_id k (earnings s)\<rparr>"

definition handleEdit :: "earning \<Rightarrow> app \<Rightarrow> app" where
  "handleEdit item s = s\<lparr>editing := Some item\<rparr>"

definition handleCancelEdit :: "app \<Rightarrow> app" where
  "handleCancelEdit s = s\<lparr>editing := None\<rparr>"

section \<open>The entry form\<close>

text \<open>\<^verbatim>\<open>String(n)\<close> for an integer \<open>n\<close>, as \<^verbatim>\<open>Date.now()\<close> returns one.\<close>

fun digits :: "nat \<Rightarrow> string" where
  "digits n = (if n < 10 then [''0123456789'' ! n]
               else digits (n div 10) @ [''0123456789'' ! (n mod 10)])"

declare digits.simps [simp del]

definition String_int :: "int \<Rightarrow> string" where
  "String_int n = (if n < 0 then CHR ''-'' # digits (nat (- n)) else digits (nat n))"

text \<open>\<^verbatim>\<open>note.trim()\<close>, on the white space that a \<open>char\<close> can hold.\<close>

definition is_space :: "char \<Rightarrow> bool" where
  "is_space c = (c \<in> set [CHR '' '', CHR 0x09, CHR 0x0A, CHR 0x0B, CHR 0x0C, CHR 0x0D, CHR 0xA0])"

definition trim :: "string \<Rightarrow> string" where
  "trim s = rev (dropWhile is_space (rev (dropWhile is_space s)))"

text \<open>
  \<^verbatim>\<open>reset()\<close>: the date field is set to \<^verbatim>\<open>new Date().toISOString().slice(0, 10)\<close>, which
  the model takes as the input \<open>today\<close>.
\<close>

definition reset :: "string \<Rightarrow> form" where
  "reset today = \<lparr>amount_s = [], date_s = today, note_s = []\<rparr>"

text \<open>
  What one press of the submit button does: the alerts shown (title and message), the
  records passed to \<^verbatim>\<open>onAdd\<close>, and the fields of the form afterwards.
\<close>

record submitted =
  alerts :: "(string \<times> string) list"
  emitted :: "earning list"
  form_after :: form

text \<open>
  \<^verbatim>\<open>
  const parsed = parseFloat(amount);
  if (Number.isNaN(parsed) || parsed <= 0) { Alert.alert(...); return; }
  const payload = { id: editing?.id ?? String(Date.now()), amount: parsed, date,
                    note: note.trim() };
  onAdd(payload);
  reset();
  \<close>
  \<open>now\<close> is what \<^verbatim>\<open>Date.now()\<close> returns.
\<close>

definition handleAddOrSave ::
  "host \<Rightarrow> int \<Rightarrow> string \<Rightarrow> earning option \<Rightarrow> form \<Rightarrow> submitted" where
  "handleAddOrSave h now today ed f =
     (let parsed = parseFloat h (amount_s f)
      in if isNaN parsed \<or> le_zero parsed
         then \<lparr>alerts = [(''Invalid amount'', ''Please enter a positive number for amount'')],
               emitted = [], form_after = f\<rparr>
         else
           let payload = \<lparr>id_e = (case ed of Some e \<Rightarrow> id_e e | None \<Rightarrow> String_int now),
                          amount = parsed, date = date_s f, note_e = trim (note_s f)\<rparr>
           in \<lparr>alerts = [], emitted = [payload], form_after = reset today\<rparr>)"

text \<open>
  The press inside \<^verbatim>\<open>App\<close>: \<^verbatim>\<open>onAdd\<close> is \<^verbatim>\<open>handleAdd\<close>, run on every record the form
  emits.
\<close>

definition submit :: "host \<Rightarrow> int \<Rightarrow> string \<Rightarrow> app \<Rightarrow> app \<times> (string \<times> string) list" where
  "submit h now today s =
     (let r = handleAddOrSave h now today (editing s) (input s)
      in ((fold handleAdd (emitted r) s)\<lparr>input := form_after r\<rparr>, alerts r))"

text \<open>The Cancel button: \<^verbatim>\<open>reset(); onCancel && onCancel();\<close>\<close>

definition cancel :: "string \<Rightarrow> app \<Rightarrow> app" where
  "cancel today s = handleCancelEdit (s\<lparr>input := reset today\<rparr>)"

text \<open>
  The effect of the form on \<^verbatim>\<open>[editing]\<close>: the fields are filled from the record being
  edited, or reset when there is none.
\<close>

definition prefill :: "host \<Rightarrow> string \<Rightarrow> earning option \<Rightarrow> form" where
  "prefill h today ed =
     (case ed of
        Some e \<Rightarrow> \<lparr>amount_s = ToString h (amount e), date_s = date e, note_s = note_e e\<rparr>
      | None \<Rightarrow> reset today)"

section \<open>Sorting\<close>

text \<open>
  \<^verbatim>\<open>Array.prototype.sort(comparefn)\<close> is a function of the language. Its specification
  asks for a stable sort in the order of the comparator, where a result that is NaN counts
  as zero and \<open>x\<close> goes after \<open>y\<close> only when \<open>comparefn(x, y) > 0\<close>. The model is the stable
  insertion sort that does this.
\<close>

fun insort_cmp :: "('a \<Rightarrow> 'a \<Rightarrow> number) \<Rightarrow> 'a \<Rightarrow> 'a list \<Rightarrow> 'a list" where
  "insort_cmp c x [] = [x]"
| "insort_cmp c x (y # ys) = (if gt_zero (c x y) then y # insort_cmp c x ys else x # y # ys)"

definition sort_js :: "('a \<Rightarrow> 'a \<Rightarrow> number) \<Rightarrow> 'a list \<Rightarrow> 'a list" where
  "sort_js c xs = foldr (insort_cmp c) xs []"

text \<open>
  The two comparators of \<^verbatim>\<open>sorted\<close>:
  \<^verbatim>\<open>
  if (a.date === b.date) return 0;
  return sortDir === 'asc' ? a.date.localeCompare(b.date) : b.date.localeCompare(a.date);
  \<close>
  and
  \<^verbatim>\<open>
  const na = Number(a.amount || 0), nb = Number(b.amount || 0);
  return sortDir === 'asc' ? na - nb : nb - na;
  \<close>
\<close>

definition compare_date :: "host \<Rightarrow> sort_dir \<Rightarrow> earning \<Rightarrow> earning \<Rightarrow> number" where
  "compare_date h dir a b =
     (if date a = date b then Fin 0
      else if dir = Asc then Fin (of_int (localeCompare h (date a) (date b)))
      else Fin (of_int (localeCompare h (date b) (date a))))"

definition compare_amount :: "sort_dir \<Rightarrow> earning \<Rightarrow> earning \<Rightarrow> number" where
  "compare_amount dir a b =
     (let na = or_zero (amount a); nb = or_zero (amount b)
      in if dir = Asc then sub na nb else sub nb na)"

definition comparator :: "host \<Rightarrow> sort_key \<Rightarrow> sort_dir \<Rightarrow> earning \<Rightarrow> earning \<Rightarrow> number" where
  "comparator h by dir = (if by = Date then compare_date h dir else compare_amount dir)"

text \<open>\<^verbatim>\<open>sorted\<close>: the value of the sorted copy.\<close>

definition sorted_earnings :: "host \<Rightarrow> app \<Rightarrow> earning list" where
  "sorted_earnings h s = sort_js (comparator h (sortBy s) (sortDir s)) (earnings s)"

text \<open>
  \<^verbatim>\<open>sorted\<close> on arrays in memory. \<^verbatim>\<open>sort\<close> works in place, so it matters that
  \<^verbatim>\<open>const arr = [...earnings]\<close> makes a new array. The memory is the list of the arrays
  allocated so far and a reference is an index into it.
\<close>

type_synonym memory = "earning list list"

definition spread :: "memory \<Rightarrow> nat \<Rightarrow> memory \<times> nat" where
  "spread m r = (m @ [m ! r], length m)"

definition sort_in_place :: "(earning \<Rightarrow> earning \<Rightarrow> number) \<Rightarrow> memory \<Rightarrow> nat \<Rightarrow> memory" where
  "sort_in_place c m r = m[r := sort_js c (m ! r)]"

definition sorted_memo :: "host \<Rightarrow> sort_key \<Rightarrow> sort_dir \<Rightarrow> memory \<Rightarrow> nat \<Rightarrow> memory \<times> nat" where
  "sorted_memo h by dir m earnings_ref =
     (let (m1, arr) = spread m earnings_ref;
          m2 = (if by = Date then sort_in_place (compare_date h dir) m1 arr
                else sort_in_place (compare_amount dir) m1 arr)
      in (m2, arr))"

section \<open>Pagination\<close>

text \<open>
  \<^verbatim>\<open>Math.max(1, Math.ceil(sorted.length / pageSize))\<close>, for a page size other than zero:
  the quotient is the exact one, and the only values that the code gives the page size
  are 5, 10 and 20.
\<close>

definition totalPages :: "host \<Rightarrow> app \<Rightarrow> int" where
  "totalPages h s =
     max 1 \<lceil>(of_nat (length (sorted_earnings h s)) :: rat) / of_int (pageSize s)\<rceil>"

text \<open>\<^verbatim>\<open>Math.min(totalPages, Math.max(1, page))\<close>\<close>

definition currentPage :: "host \<Rightarrow> app \<Rightarrow> int" where
  "currentPage h s = min (totalPages h s) (max 1 (page s))"

text \<open>
  \<^verbatim>\<open>Array.prototype.slice(start, end)\<close>: a negative index counts from the end, and both
  ends are cut to the array.
\<close>

definition slice :: "'a list \<Rightarrow> int \<Rightarrow> int \<Rightarrow> 'a list" where
  "slice xs start end =
     (let len = int (length xs);
          k = (if start < 0 then max (len + start) 0 else min start len);
          final = (if end < 0 then max (len + end) 0 else min end len)
      in take (nat (final - k)) (drop (nat k) xs))"

text \<open>
  \<^verbatim>\<open>
  const start = (currentPage - 1) * pageSize;
  return sorted.slice(start, start + pageSize);
  \<close>
\<close>

definition paginated :: "host \<Rightarrow> app \<Rightarrow> earning list" where
  "paginated h s =
     (let start = (currentPage h s - 1) * pageSize s
      in slice (sorted_earnings h s) start (start + pageSize s))"

definition nextPage :: "host \<Rightarrow> app \<Rightarrow> app" where
  "nextPage h s = s\<lparr>page := min (totalPages h s) (page s + 1)\<rparr>"

definition prevPage :: "app \<Rightarrow> app" where
  "prevPage s = s\<lparr>page := max 1 (page s - 1)\<rparr>"

definition changePageSize :: "int \<Rightarrow> app \<Rightarrow> app" where
  "changePageSize sz s = s\<lparr>pageSize := sz, page := 1\<rparr>"

definition toggleSort :: "sort_key \<Rightarrow> app \<Rightarrow> app" where
  "toggleSort by s =
     (if sortBy s = by then s\<lparr>sortDir := (if sortDir s = Asc then Desc else Asc)\<rparr>
      else s\<lparr>sortBy := by, sortDir := Desc\<rparr>)"

section \<open>The ledger view\<close>

text \<open>
  \<^verbatim>\<open>x.toFixed(2)\<close>: the integer \<open>n\<close> nearest to \<open>100 * x\<close>, the larger one of two, written
  with a point before its last two digits; from \<open>10^21\<close> on the result is \<^verbatim>\<open>String(x)\<close>.
\<close>

definition fixed2 :: "rat \<Rightarrow> string" where
  "fixed2 x = (let n = nat \<lfloor>x * 100 + 1 / 2\<rfloor>
               in digits (n div 100) @ ''.'' @ digits (n mod 100 div 10) @ digits (n mod 10))"

fun toFixed2 :: "host \<Rightarrow> number \<Rightarrow> string" where
  "toFixed2 h NaN = ''NaN''"
| "toFixed2 h PosInf = ''Infinity''"
| "toFixed2 h NegInf = ''-Infinity''"
| "toFixed2 h (Fin x) =
     (if x < 0
      then ''-'' @ (if 10 ^ 21 \<le> - x then ToString h (Fin (- x)) else fixed2 (- x))
      else (if 10 ^ 21 \<le> x then ToString h (Fin x) else fixed2 x))"

text \<open>\<^verbatim>\<open>earnings.reduce((s, e) => s + Number(e.amount || 0), 0)\<close>\<close>

definition total_of :: "host \<Rightarrow> earning list \<Rightarrow> number" where
  "total_of h es = foldl (\<lambda>s e. add_rounded h s (or_zero (amount e))) (Fin 0) es"

text \<open>
  What \<^verbatim>\<open>EarningsList\<close> shows for the \<open>earnings\<close> it is given: the total after the
  label \<^verbatim>\<open>Total:\<close> and the currency sign, and the rows of the list (none, and a
  placeholder, when \<open>earnings\<close> is empty). The variant with pagination shows the rows as
  given; the basic variant shows a copy sorted by \<^verbatim>\<open>b.date.localeCompare(a.date)\<close>.
\<close>

record list_view =
  total_shown :: string
  rows :: "earning list"

definition EarningsList :: "host \<Rightarrow> earning list \<Rightarrow> list_view" where
  "EarningsList h es = \<lparr>total_shown = toFixed2 h (total_of h es), rows = es\<rparr>"

definition EarningsList_basic :: "host \<Rightarrow> earning list \<Rightarrow> list_view" where
  "EarningsList_basic h es =
     \<lparr>total_shown = toFixed2 h (total_of h es),
      rows = sort_js (\<lambda>a b. Fin (of_int (localeCompare h (date b) (date a)))) es\<rparr>"

text \<open>
  What \<^verbatim>\<open>App\<close> passes to the list: \<^verbatim>\<open>earnings={paginated}\<close> in the variant with
  pagination, \<^verbatim>\<open>earnings={earnings}\<close> in the basic one.
\<close>

definition App_list :: "host \<Rightarrow> app \<Rightarrow> list_view" where
  "App_list h s = EarningsList h (paginated h s)"

definition App_basic_list :: "host \<Rightarrow> app \<Rightarrow> list_view" where
  "App_basic_list h s = EarningsList_basic h (earnings s)"

section \<open>Events\<close>

text \<open>
  The three page size buttons call \<^verbatim>\<open>changePageSize\<close> with 5, 10 and 20.
\<close>

datatype size_button = Five | Ten | Twenty

fun size_of_button :: "size_button \<Rightarrow> int" where
  "size_of_button Five = 5"
| "size_of_button Ten = 10"
| "size_of_button Twenty = 20"

text \<open>
  What the user can do: type into a field, press Add or Save, press Cancel, press Edit or
  Delete on a row (and then confirm or not), press a sort button, a page size button,
  Prev or Next.
\<close>

datatype event =
    TypeAmount string
  | TypeDate string
  | TypeNote string
  | PressSubmit
  | PressCancel
  | PressEdit earning
  | PressDelete string bool
  | PressSort sort_key
  | PressSize size_button
  | PressPrev
  | PressNext

text \<open>The handler of an event; \<open>now\<close> and \<open>today\<close> are the clock as the handler reads it.\<close>

fun handle :: "host \<Rightarrow> int \<Rightarrow> string \<Rightarrow> event \<Rightarrow> app \<Rightarrow> app" where
  "handle h now today (TypeAmount t) s = s\<lparr>input := (input s)\<lparr>amount_s := t\<rparr>\<rparr>"
| "handle h now today (TypeDate t) s = s\<lparr>input := (input s)\<lparr>date_s := t\<rparr>\<rparr>"
| "handle h now today (TypeNote t) s = s\<lparr>input := (input s)\<lparr>note_s := t\<rparr>\<rparr>"
| "handle h now today PressSubmit s = fst (submit h now today s)"
| "handle h now today PressCancel s = (if editing s = None then s else cancel today s)"
| "handle h now today (PressEdit item) s = handleEdit item s"
| "handle h now today (PressDelete k confirmed) s = (if confirmed then handleDelete k s else s)"
| "handle h now today (PressSort by) s = toggleSort by s"
| "handle h now today (PressSize b) s = changePageSize (size_of_button b) s"
| "handle h now today PressPrev s = prevPage s"
| "handle h now today PressNext s = nextPage h s"

text \<open>
  The two effects that run after a handler: the form's, when \<open>editing\<close> has changed, and
  \<^verbatim>\<open>setPage(1)\<close>, when \<^verbatim>\<open>[earnings.length, pageSize, sortBy, sortDir]\<close> has.
\<close>

definition effects :: "host \<Rightarrow> string \<Rightarrow> app \<Rightarrow> app \<Rightarrow> app" where
  "effects h today s0 s =
     (let s1 = (if editing s = editing s0 then s else s\<lparr>input := prefill h today (editing s)\<rparr>)
      in if (length (earnings s), pageSize s, sortBy s, sortDir s)
            = (length (earnings s0), pageSize s0, sortBy s0, sortDir s0)
         then s1 else s1\<lparr>page := 1\<rparr>)"

definition step :: "host \<Rightarrow> app \<Rightarrow> (int \<times> string) \<times> event \<Rightarrow> app" where
  "step h s ce = (case ce of ((now, today), ev) \<Rightarrow> effects h today s (handle h now today ev s))"

text \<open>The state after the first render, and after a sequence of events.\<close>

definition init :: "string \<Rightarrow> app" where
  "init today =
     \<lparr>earnings = [], editing = None, page = 1, pageSize = 5, sortBy = Date, sortDir = Desc,
      input = reset today\<rparr>"

definition run :: "host \<Rightarrow> string \<Rightarrow> ((int \<times> string) \<times> event) list \<Rightarrow> app" where
  "run h today evs = foldl (step h) (init today) evs"

text \<open>The ledger alone under reconcile and delete, from the empty ledger.\<close>

datatype ledger_op = Reconcile earning | Delete string

fun apply_op :: "earning list \<Rightarrow> ledger_op \<Rightarrow> earning list" where
  "apply_op l (Reconcile item) = reconcile item l"
| "apply_op l (Delete k) = remove_id k l"

definition ledger_after :: "ledger_op list \<Rightarrow> earning list" where
  "ledger_after ops = foldl apply_op [] ops"

section \<open>A host to run the model on\<close>

text \<open>
  \<^verbatim>\<open>parseFloat\<close> on ASCII input, after the grammar of the language: leading white space
  is skipped, and the longest prefix that is a decimal literal (a sign, then
  \<^verbatim>\<open>Infinity\<close> or digits with an optional fraction and exponent) gives the value; NaN
  when there is none. The value is the exact one: this is \<^verbatim>\<open>parseFloat\<close> wherever that
  value is a double, as for the whole numbers used below.
\<close>

definition is_digit :: "char \<Rightarrow> bool" where
  "is_digit c = (c \<in> set ''0123456789'')"

definition digit_value :: "char \<Rightarrow> nat" where
  "digit_value c = of_char c - 48"

definition decimal :: "string \<Rightarrow> nat" where
  "decimal ds = foldl (\<lambda>n c. 10 * n + digit_value c) 0 ds"

definition exponent :: "string \<Rightarrow> int" where
  "exponent r =
     (case r of
        [] \<Rightarrow> 0
      | c # t \<Rightarrow>
          if c = CHR ''e'' \<or> c = CHR ''E'' then
            (case t of
               [] \<Rightarrow> 0
             | d # u \<Rightarrow>
                 if d = CHR ''-'' then - int (decimal (takeWhile is_digit u))
                 else if d = CHR ''+'' then int (decimal (takeWhile is_digit u))
                 else int (decimal (takeWhile is_digit t)))
          else 0)"

definition scale :: "rat \<Rightarrow> int \<Rightarrow> rat" where
  "scale x e = (if 0 \<le> e then x * 10 ^ nat e else x / 10 ^ nat (- e))"

definition unsigned_literal :: "string \<Rightarrow> number" where
  "unsigned_literal t =
     (if take 8 t = ''Infinity'' then PosInf
      else
        let ip = takeWhile is_digit t;
            r1 = dropWhile is_digit t;
            fp = (case r1 of [] \<Rightarrow> [] | c # u \<Rightarrow> if c = CHR ''.'' then takeWhile is_digit u else []);
            r2 = (case r1 of [] \<Rightarrow> [] | c # u \<Rightarrow> if c = CHR ''.'' then dropWhile is_digit u else r1)
        in if ip = [] \<and> fp = [] then NaN
           else Fin (scale (of_nat (decimal ip) + of_nat (decimal fp) / 10 ^ length fp)
                           (exponent r2)))"

definition parseFloat_ascii :: "string \<Rightarrow> number" where
  "parseFloat_ascii s =
     (case dropWhile is_space s of
        [] \<Rightarrow> NaN
      | c # t \<Rightarrow>
          if c = CHR ''-'' then neg (unsigned_literal t)
          else if c = CHR ''+'' then unsigned_literal t
          else unsigned_literal (c # t))"

text \<open>
  \<^verbatim>\<open>String(x)\<close> for the special values, for whole numbers below \<open>10^21\<close> and for \<open>10^21\<close>
  itself, which is written with an exponent.
\<close>

fun ToString_whole :: "number \<Rightarrow> string" where
  "ToString_whole NaN = ''NaN''"
| "ToString_whole PosInf = ''Infinity''"
| "ToString_whole NegInf = ''-Infinity''"
| "ToString_whole (Fin x) = (if x = 10 ^ 21 then ''1e+21'' else String_int \<lfloor>x\<rfloor>)"

text \<open>
  The comparison of two strings character by character, by character code: the order in
  which \<^verbatim>\<open>localeCompare\<close> puts dates written \<^verbatim>\<open>YYYY-MM-DD\<close>.
\<close>

fun compare_codes :: "string \<Rightarrow> string \<Rightarrow> int" where
  "compare_codes [] [] = 0"
| "compare_codes [] (y # ys) = - 1"
| "compare_codes (x # xs) [] = 1"
| "compare_codes (x # xs) (y # ys) =
     (if (of_char x :: nat) < of_char y then - 1
      else if (of_char y :: nat) < of_char x then 1
      else compare_codes xs ys)"

text \<open>
  The host of the examples. Its rounding leaves every rational as it is, which is the
  rounding to a double on the rationals that are doubles: the examples add whole numbers
  only.
\<close>

definition plain_host :: host where
  "plain_host =
     \<lparr>parseFloat = parseFloat_ascii, ToString = ToString_whole, localeCompare = compare_codes,
      rounding = Fin\<rparr>"

section \<open>Sample data\<close>

text \<open>Two entries, an edited copy of the first, and the states that hold them.\<close>

definition first_entry :: earning where
  "first_entry = \<lparr>id_e = ''1'', amount = Fin 1200, date = ''2024-01-05'', note_e = []\<rparr>"

definition second_entry :: earning where
  "second_entry = \<lparr>id_e = ''2'', amount = Fin 850, date = ''2024-01-06'', note_e = []\<rparr>"

definition first_edited :: earning where
  "first_edited = \<lparr>id_e = ''1'', amount = Fin 300, date = ''2024-01-05'', note_e = []\<rparr>"

definition with_ledger :: "earning list \<Rightarrow> app" where
  "with_ledger es = (init ''2024-01-07'')\<lparr>earnings := es\<rparr>"

definition editing_first :: app where
  "editing_first =
     (with_ledger [second_entry, first_entry])
       \<lparr>editing := Some first_entry,
        input := \<lparr>amount_s = ''300'', date_s = ''2024-01-05'', note_s = []\<rparr>\<rparr>"

text \<open>
  A ledger whose only record has the id that the clock gives at \<open>1704412800000\<close>, with a
  new amount typed into the form and no record being edited.
\<close>

definition clock_entry :: earning where
  "clock_entry =
     \<lparr>id_e = ''1704412800000'', amount = Fin 1200, date = ''2024-01-05'', note_e = []\<rparr>"

definition same_clock :: app where
  "same_clock =
     (with_ledger [clock_entry])
       \<lparr>input := \<lparr>amount_s = ''850'', date_s = ''2024-01-05'', note_s = []\<rparr>\<rparr>"

text \<open>The form with a given text in the amount field.\<close>

definition typed :: "string \<Rightarrow> app" where
  "typed t = (with_ledger [first_entry])\<lparr>input := \<lparr>amount_s = t, date_s = ''2024-01-07'', note_s = []\<rparr>\<rparr>"

text \<open>
  Entries of amount 1 made at the clock readings \<open>0, 1, 2, \<dots>\<close>, the presses that make
  them, and a ledger of twelve of them shown at its third page.
\<close>

definition entry_no :: "nat \<Rightarrow> earning" where
  "entry_no n = \<lparr>id_e = digits n, amount = Fin 1, date = ''2024-01-05'', note_e = []\<rparr>"

definition add_no :: "nat \<Rightarrow> ((int \<times> string) \<times> event) list" where
  "add_no n = [((int n, ''2024-01-05''), TypeAmount ''1''), ((int n, ''2024-01-05''), PressSubmit)]"

definition six_adds :: "((int \<times> string) \<times> event) list" where
  "six_adds = concat (map add_no [0..<6])"

definition add_text :: "string \<Rightarrow> ((int \<times> string) \<times> event) list" where
  "add_text t = [((0, ''2024-01-05''), TypeAmount t), ((0, ''2024-01-05''), PressSubmit)]"

definition third_page :: app where
  "third_page = (with_ledger (map entry_no [0..<12]))\<lparr>page := 3\<rparr>"

section \<open>The invariant of the page state\<close>

text \<open>The page size is one of the three on offer, and the page is one that exists.\<close>

definition page_ok :: "host \<Rightarrow> app \<Rightarrow> bool" where
  "page_ok h s \<longleftrightarrow> pageSize s \<in> {5, 10, 20} \<and> 1 \<le> page s \<and> page s \<le> totalPages h s"

section \<open>Sums and orders for the statements\<close>

text \<open>
  The sum of the amounts of a sequence of earnings: as the program's \<^verbatim>\<open>+\<close> adds them
  one after the other to what it has, and, for amounts that are finite, as a rational.
\<close>

fun sum_amounts :: "host \<Rightarrow> number \<Rightarrow> earning list \<Rightarrow> number" where
  "sum_amounts h acc [] = acc"
| "sum_amounts h acc (e # es) = sum_amounts h (add_rounded h acc (amount e)) es"

fun is_finite :: "number \<Rightarrow> bool" where
  "is_finite (Fin x) = True"
| "is_finite _ = False"

fun value_of :: "number \<Rightarrow> rat" where
  "value_of (Fin x) = x"
| "value_of _ = 0"

definition amount_sum :: "earning list \<Rightarrow> rat" where
  "amount_sum es = sum_list (map (\<lambda>e. value_of (amount e)) es)"

text \<open>\<^verbatim>\<open>x <= y\<close> on Numbers.\<close>

fun num_le :: "number \<Rightarrow> number \<Rightarrow> bool" where
  "num_le NaN _ = False"
| "num_le _ NaN = False"
| "num_le NegInf _ = True"
| "num_le _ PosInf = True"
| "num_le (Fin x) (Fin y) = (x \<le> y)"
| "num_le _ _ = False"

text \<open>
  The order of a sort key and direction: \<open>a\<close> may stand before \<open>b\<close>. Dates are ordered as
  \<^verbatim>\<open>localeCompare\<close> orders them, amounts (read as \<^verbatim>\<open>Number(amount || 0)\<close>) as Numbers.
\<close>

definition in_order :: "host \<Rightarrow> sort_key \<Rightarrow> sort_dir \<Rightarrow> earning \<Rightarrow> earning \<Rightarrow> bool" where
  "in_order h by dir a b =
     (case (by, dir) of
        (Date, Asc) \<Rightarrow> date a = date b \<or> localeCompare h (date a) (date b) \<le> 0
      | (Date, Desc) \<Rightarrow> date a = date b \<or> localeCompare h (date b) (date a) \<le> 0
      | (Amount, Asc) \<Rightarrow> num_le (or_zero (amount a)) (or_zero (amount b))
      | (Amount, Desc) \<Rightarrow> num_le (or_zero (amount b)) (or_zero (amount a)))"

text \<open>Two records compare equal on the key when each may stand before the other.\<close>

definition same_key :: "host \<Rightarrow> sort_key \<Rightarrow> sort_dir \<Rightarrow> earning \<Rightarrow> earning \<Rightarrow> bool" where
  "same_key h by dir a b \<longleftrightarrow> in_order h by dir a b \<and> in_order h by dir b a"

text \<open>
  What is asked of \<^verbatim>\<open>localeCompare\<close>: it orders the strings, that is, swapping the
  arguments swaps the sign, and \<open>\<le> 0\<close> is transitive.
\<close>

definition collation :: "(string \<Rightarrow> string \<Rightarrow> int) \<Rightarrow> bool" where
  "collation lc \<longleftrightarrow>
     (\<forall>a b. (0 < lc a b) = (lc b a < 0)) \<and>
     (\<forall>a b c. lc a b \<le> 0 \<and> lc b c \<le> 0 \<longrightarrow> lc a c \<le> 0)"

text \<open>A ledger entered out of the order of its dates.\<close>

definition unsorted :: app where
  "unsorted = with_ledger [first_entry, second_entry, first_edited]"

section \<open>Properties of the ledger\<close>

lemmas sample_defs = first_entry_def second_entry_def first_edited_def with_ledger_def
  editing_first_def init_def reset_def

lemma reconcile_present:
  "\<exists>p\<in>set prev. id_e p = id_e item \<Longrightarrow>
   reconcile item prev = map (\<lambda>p. if id_e p = id_e item then item else p) prev"
  by (simp add: reconcile_def list_ex_iff)

lemma reconcile_absent:
  "\<forall>p\<in>set prev. id_e p \<noteq> id_e item \<Longrightarrow> reconcile item prev = item # prev"
  by (auto simp: reconcile_def list_ex_iff)

lemma map_id_reconcile_present:
  "\<exists>p\<in>set prev. id_e p = id_e item \<Longrightarrow> map id_e (reconcile item prev) = map id_e prev"
  by (simp add: reconcile_present)

lemma earnings_handleAdd: "earnings (handleAdd item s) = reconcile item (earnings s)"
  by (simp add: handleAdd_def)

lemma earnings_submit:
  "earnings (fst (submit h now today s)) =
     fold reconcile (emitted (handleAddOrSave h now today (editing s) (input s))) (earnings s)"
proof -
  have "earnings (fold handleAdd es s) = fold reconcile es (earnings s)" for es
    by (induction es arbitrary: s) (simp_all add: earnings_handleAdd)
  then show ?thesis by (simp add: submit_def Let_def)
qed

lemma parse_300: "parseFloat_ascii ''300'' = Fin 300"
  by (simp add: parseFloat_ascii_def unsigned_literal_def is_space_def is_digit_def decimal_def
      digit_value_def exponent_def scale_def)

lemma emitted_editing_first:
  "emitted (handleAddOrSave plain_host 7 ''2024-01-07'' (editing editing_first) (input editing_first))
     = [first_edited]"
  by (simp add: handleAddOrSave_def plain_host_def parse_300 sample_defs trim_def)

text \<open>
  C1. A record that reaches \<open>handleAdd\<close> with an id that some record of the ledger has
  takes the place of that record: the ledger keeps its length, and every position holds
  what it held, but for the positions of that id, which hold the incoming record. With an
  id that no record has, the incoming record is put in front. \<open>handleAdd\<close> does not look at
  \<open>editing\<close>, and a press of the submit button hands the emitted record to it in either
  mode, so Add and Save follow the same rule.
\<close>

theorem reconcile_rule:
  "((\<exists>p\<in>set (earnings s). id_e p = id_e item) \<longrightarrow>
      length (earnings (handleAdd item s)) = length (earnings s) \<and>
      (\<forall>i<length (earnings s).
         earnings (handleAdd item s) ! i =
           (if id_e (earnings s ! i) = id_e item then item else earnings s ! i))) \<and>
   ((\<forall>p\<in>set (earnings s). id_e p \<noteq> id_e item) \<longrightarrow>
      earnings (handleAdd item s) = item # earnings s) \<and>
   (emitted (handleAddOrSave h now today (editing s) (input s)) = [item] \<longrightarrow>
      earnings (fst (submit h now today s)) = earnings (handleAdd item s))"
proof (intro conjI impI)
  assume ex: "\<exists>p\<in>set (earnings s). id_e p = id_e item"
  show "length (earnings (handleAdd item s)) = length (earnings s)"
    by (simp add: earnings_handleAdd reconcile_present [OF ex])
  show "\<forall>i<length (earnings s).
         earnings (handleAdd item s) ! i =
           (if id_e (earnings s ! i) = id_e item then item else earnings s ! i)"
    by (simp add: earnings_handleAdd reconcile_present [OF ex])
next
  assume "\<forall>p\<in>set (earnings s). id_e p \<noteq> id_e item"
  then show "earnings (handleAdd item s) = item # earnings s"
    by (simp add: earnings_handleAdd reconcile_absent)
next
  assume "emitted (handleAddOrSave h now today (editing s) (input s)) = [item]"
  then show "earnings (fst (submit h now today s)) = earnings (handleAdd item s)"
    by (simp add: earnings_submit earnings_handleAdd)
qed

theorem reconcile_rule_witness:
  "earnings (handleAdd first_edited editing_first) = [second_entry, first_edited] \<and>
   earnings (handleAdd second_entry (with_ledger [first_entry])) = [second_entry, first_entry] \<and>
   earnings (fst (submit plain_host 7 ''2024-01-07'' editing_first))
     = [second_entry, first_edited]"
proof -
  have a: "\<exists>p\<in>set (earnings editing_first). id_e p = id_e first_edited"
    by (simp add: sample_defs)
  have b: "\<forall>p\<in>set (earnings (with_ledger [first_entry])). id_e p \<noteq> id_e second_entry"
    by (simp add: sample_defs)
  have e: "earnings editing_first = [second_entry, first_entry]"
    by (simp add: editing_first_def with_ledger_def)
  have i: "id_e second_entry \<noteq> id_e first_edited" "id_e first_entry = id_e first_edited"
    by (simp_all add: sample_defs)
  note r = reconcile_rule [of editing_first first_edited plain_host 7 "''2024-01-07''"]
  from r a have "length (earnings (handleAdd first_edited editing_first)) = 2"
    and "earnings (handleAdd first_edited editing_first) ! 0 = second_entry"
    and "earnings (handleAdd first_edited editing_first) ! 1 = first_edited"
    by (simp_all add: e i)
  then have 1: "earnings (handleAdd first_edited editing_first) = [second_entry, first_edited]"
    by (simp add: list_eq_iff_nth_eq less_Suc_eq numeral_2_eq_2)
  from r emitted_editing_first 1
  have 2: "earnings (fst (submit plain_host 7 ''2024-01-07'' editing_first))
             = [second_entry, first_edited]"
    by simp
  from b reconcile_rule [of "with_ledger [first_entry]" second_entry]
  have 3: "earnings (handleAdd second_entry (with_ledger [first_entry]))
             = [second_entry, first_entry]"
    by (simp add: with_ledger_def)
  from 1 2 3 show ?thesis by simp
qed

lemma distinct_reconcile:
  "distinct (map id_e l) \<Longrightarrow> distinct (map id_e (reconcile item l))"
proof (cases "\<exists>p\<in>set l. id_e p = id_e item")
  case True
  assume "distinct (map id_e l)"
  then show ?thesis by (simp only: map_id_reconcile_present [OF True])
next
  case False
  assume "distinct (map id_e l)"
  with False show ?thesis by (auto simp: reconcile_absent)
qed

lemma distinct_remove_id:
  "distinct (map id_e l) \<Longrightarrow> distinct (map id_e (remove_id k l))"
  by (simp add: remove_id_def distinct_map_filter)

lemma distinct_apply_op:
  "distinct (map id_e l) \<Longrightarrow> distinct (map id_e (apply_op l op))"
  by (cases op) (simp_all add: distinct_reconcile distinct_remove_id)

lemma distinct_foldl_apply_op:
  "distinct (map id_e l) \<Longrightarrow> distinct (map id_e (foldl apply_op l ops))"
  by (induction ops arbitrary: l) (simp_all add: distinct_apply_op)

lemma earnings_effects: "earnings (effects h today s0 s) = earnings s"
  by (simp add: effects_def Let_def)

lemma distinct_fold_reconcile:
  "distinct (map id_e l) \<Longrightarrow> distinct (map id_e (fold reconcile es l))"
  by (induction es arbitrary: l) (simp_all add: distinct_reconcile)

lemma distinct_handle:
  assumes "distinct (map id_e (earnings s))"
  shows "distinct (map id_e (earnings (handle h now today ev s)))"
proof (cases ev)
  case PressSubmit
  with assms show ?thesis by (simp add: earnings_submit distinct_fold_reconcile)
next
  case (PressDelete k confirmed)
  with assms show ?thesis by (simp add: handleDelete_def distinct_remove_id)
qed (insert assms, simp_all add: cancel_def handleCancelEdit_def handleEdit_def toggleSort_def
      changePageSize_def prevPage_def nextPage_def)

lemma distinct_step:
  "distinct (map id_e (earnings s)) \<Longrightarrow> distinct (map id_e (earnings (step h s ce)))"
  by (cases ce) (auto simp: step_def earnings_effects distinct_handle)

lemma distinct_foldl_step:
  "distinct (map id_e (earnings s)) \<Longrightarrow> distinct (map id_e (earnings (foldl (step h) s evs)))"
  by (induction evs arbitrary: s) (simp_all add: distinct_step)

lemma distinct_run: "distinct (map id_e (earnings (run h today evs)))"
  by (simp add: run_def distinct_foldl_step init_def)

text \<open>
  C4. No two records of the ledger have the same id: this holds of the ledger reached
  from the empty one by any sequence of reconcile and delete operations, each of the two
  operations keeps it, and it holds in every state that the application reaches through
  its events.
\<close>

theorem ids_unique:
  "distinct (map id_e (ledger_after ops)) \<and>
   (distinct (map id_e l) \<longrightarrow> distinct (map id_e (reconcile item l))) \<and>
   (distinct (map id_e l) \<longrightarrow> distinct (map id_e (remove_id k l))) \<and>
   distinct (map id_e (earnings (run h today evs)))"
  by (simp add: ledger_after_def distinct_foldl_apply_op distinct_reconcile distinct_remove_id
      distinct_run)

theorem ids_unique_witness:
  "distinct (map id_e [second_entry, first_entry]) \<and>
   distinct (map id_e (reconcile first_edited [second_entry, first_entry])) \<and>
   distinct (map id_e (remove_id ''1'' [second_entry, first_entry]))"
proof -
  have a: "distinct (map id_e [second_entry, first_entry])"
    by (simp add: sample_defs)
  with ids_unique [of "[]" "[second_entry, first_entry]" first_edited "''1''"]
  show ?thesis by blast
qed

text \<open>
  C10. Deleting an id keeps the other records in their order and takes nothing else
  away: what is left is a subsequence of the ledger, none of its records has the id,
  every record with another id occurs as often as before, and a ledger with no record of
  that id is left as it is. \<open>handleDelete\<close> does this to the ledger.
\<close>

theorem delete_frame:
  "subseq (remove_id k l) l \<and>
   (\<forall>x\<in>set (remove_id k l). id_e x \<noteq> k) \<and>
   (\<forall>x. id_e x \<noteq> k \<longrightarrow> count_list (remove_id k l) x = count_list l x) \<and>
   ((\<forall>x\<in>set l. id_e x \<noteq> k) \<longrightarrow> remove_id k l = l) \<and>
   earnings (handleDelete k s) = remove_id k (earnings s)"
proof (intro conjI)
  show "\<forall>x. id_e x \<noteq> k \<longrightarrow> count_list (remove_id k l) x = count_list l x"
    unfolding remove_id_def by (induction l) auto
qed (auto simp: remove_id_def handleDelete_def)

theorem delete_frame_witness:
  "remove_id ''1'' [second_entry] = [second_entry] \<and>
   count_list (remove_id ''1'' [second_entry, first_entry]) second_entry
     = count_list [second_entry, first_entry] second_entry \<and>
   subseq (remove_id ''1'' [second_entry, first_entry]) [second_entry, first_entry]"
proof -
  have a: "id_e second_entry \<noteq> ''1''" by (simp add: sample_defs)
  have b: "\<forall>x\<in>set [second_entry]. id_e x \<noteq> ''1''" by (simp add: sample_defs)
  from a b delete_frame [of "''1''" "[second_entry, first_entry]"]
    delete_frame [of "''1''" "[second_entry]"]
  show ?thesis by blast
qed

section \<open>Properties of the form\<close>

lemmas parse_defs = parseFloat_ascii_def unsigned_literal_def is_space_def is_digit_def
  decimal_def digit_value_def exponent_def scale_def

lemma parse_samples:
  "parseFloat_ascii ''abc'' = NaN" "parseFloat_ascii ''-5'' = Fin (- 5)"
  "parseFloat_ascii ''0'' = Fin 0" "parseFloat_ascii ''850'' = Fin 850"
  "parseFloat_ascii ''12abc'' = Fin 12" "parseFloat_ascii [] = NaN"
  by (simp_all add: parse_defs)

lemma input_typed: "amount_s (input (typed t)) = t"
  by (simp add: typed_def)

lemma digits_clock: "String_int 1704412800000 = ''1704412800000''"
  by (simp add: String_int_def digits.simps)

lemma digits_7: "String_int 7 = ''7''"
  by (simp add: String_int_def digits.simps)

text \<open>
  C2. When \<open>parseFloat\<close> makes NaN or a value that is not above zero of the text in the
  amount field, a press of the submit button passes no record to \<open>onAdd\<close>, shows the alert
  and leaves the state of the application, the ledger with it, as it was. For every
  other text exactly one record is passed, and no alert is shown.
\<close>

theorem invalid_amount:
  "((isNaN (parseFloat h (amount_s (input s))) \<or> le_zero (parseFloat h (amount_s (input s)))) \<longrightarrow>
      emitted (handleAddOrSave h now today (editing s) (input s)) = [] \<and>
      alerts (handleAddOrSave h now today (editing s) (input s))
        = [(''Invalid amount'', ''Please enter a positive number for amount'')] \<and>
      submit h now today s
        = (s, [(''Invalid amount'', ''Please enter a positive number for amount'')])) \<and>
   (\<not> (isNaN (parseFloat h (amount_s (input s))) \<or> le_zero (parseFloat h (amount_s (input s)))) \<longrightarrow>
      length (emitted (handleAddOrSave h now today (editing s) (input s))) = 1 \<and>
      alerts (handleAddOrSave h now today (editing s) (input s)) = [])"
  by (simp add: handleAddOrSave_def submit_def Let_def)

theorem invalid_amount_witness:
  "submit plain_host 7 ''2024-01-07'' (typed ''abc'')
     = (typed ''abc'', [(''Invalid amount'', ''Please enter a positive number for amount'')]) \<and>
   submit plain_host 7 ''2024-01-07'' (typed ''-5'')
     = (typed ''-5'', [(''Invalid amount'', ''Please enter a positive number for amount'')]) \<and>
   emitted (handleAddOrSave plain_host 7 ''2024-01-07'' (editing (typed ''-5'')) (input (typed ''-5''))) = [] \<and>
   length (emitted (handleAddOrSave plain_host 7 ''2024-01-07'' (editing (typed ''850''))
      (input (typed ''850'')))) = 1"
proof -
  have p: "parseFloat plain_host = parseFloat_ascii" by (simp add: plain_host_def)
  from invalid_amount [of plain_host "typed ''abc''" 7 "''2024-01-07''"]
    invalid_amount [of plain_host "typed ''-5''" 7 "''2024-01-07''"]
    invalid_amount [of plain_host "typed ''850''" 7 "''2024-01-07''"]
  show ?thesis by (simp add: p input_typed parse_samples)
qed

text \<open>
  C3, as stated, fails: the id of a new record is the clock reading written in decimal,
  and nothing keeps it apart from the ids in the ledger. With the ledger holding a record
  made at clock reading \<open>1704412800000\<close>, a valid submit at the same reading with no record
  being edited emits a record of that id, which takes the place of the old one: the
  ledger does not grow.
\<close>

theorem fresh_id_counterexample:
  "editing same_clock = None \<and>
   emitted (handleAddOrSave plain_host 1704412800000 ''2024-01-05'' (editing same_clock)
      (input same_clock))
     = [\<lparr>id_e = ''1704412800000'', amount = Fin 850, date = ''2024-01-05'', note_e = []\<rparr>] \<and>
   earnings same_clock = [clock_entry] \<and>
   length (earnings (fst (submit plain_host 1704412800000 ''2024-01-05'' same_clock)))
     = length (earnings same_clock) \<and>
   earnings (fst (submit plain_host 1704412800000 ''2024-01-05'' same_clock))
     = [\<lparr>id_e = ''1704412800000'', amount = Fin 850, date = ''2024-01-05'', note_e = []\<rparr>]"
  by (simp add: submit_def handleAddOrSave_def handleAdd_def reconcile_def plain_host_def
      parse_samples same_clock_def with_ledger_def init_def clock_entry_def digits_clock
      trim_def reset_def)

text \<open>
  C3, amended. A valid submit with no record being edited emits one record, whose id is
  the clock reading written in decimal; when no record of the ledger has that id, the
  ledger gains this record, and only it, at the front.
\<close>

theorem fresh_id_amended:
  assumes "editing s = None"
    and "\<not> isNaN (parseFloat h (amount_s (input s)))"
    and "\<not> le_zero (parseFloat h (amount_s (input s)))"
    and "String_int now \<notin> id_e ` set (earnings s)"
  shows "emitted (handleAddOrSave h now today (editing s) (input s))
           = [\<lparr>id_e = String_int now, amount = parseFloat h (amount_s (input s)),
               date = date_s (input s), note_e = trim (note_s (input s))\<rparr>] \<and>
         earnings (fst (submit h now today s))
           = \<lparr>id_e = String_int now, amount = parseFloat h (amount_s (input s)),
              date = date_s (input s), note_e = trim (note_s (input s))\<rparr> # earnings s"
proof -
  let ?p = "\<lparr>id_e = String_int now, amount = parseFloat h (amount_s (input s)),
             date = date_s (input s), note_e = trim (note_s (input s))\<rparr>"
  have e: "emitted (handleAddOrSave h now today (editing s) (input s)) = [?p]"
    using assms(1-3) by (simp add: handleAddOrSave_def Let_def)
  have "\<forall>p\<in>set (earnings s). id_e p \<noteq> id_e ?p"
    using assms(4) by (force simp: image_iff)
  then have "reconcile ?p (earnings s) = ?p # earnings s"
    by (rule reconcile_absent)
  with e show ?thesis
    by (simp add: earnings_submit)
qed

theorem fresh_id_amended_witness:
  "earnings (fst (submit plain_host 7 ''2024-01-07'' (typed ''850'')))
     = [\<lparr>id_e = ''7'', amount = Fin 850, date = ''2024-01-07'', note_e = []\<rparr>, first_entry]"
proof -
  have a: "editing (typed ''850'') = None"
    by (simp add: typed_def with_ledger_def init_def)
  have b: "\<not> isNaN (parseFloat plain_host (amount_s (input (typed ''850''))))"
    "\<not> le_zero (parseFloat plain_host (amount_s (input (typed ''850''))))"
    by (simp_all add: plain_host_def input_typed parse_samples)
  have c: "String_int 7 \<notin> id_e ` set (earnings (typed ''850''))"
    by (simp add: digits_7 typed_def with_ledger_def first_entry_def)
  from fresh_id_amended [OF a b c, of "''2024-01-07''"]
  show ?thesis
    by (simp add: digits_7 plain_host_def parse_samples typed_def with_ledger_def trim_def)
qed

section \<open>Properties of sorting and pagination\<close>

text \<open>
  C9. Pressing the button of a sort key other than the active one makes that key the
  active one, descending; pressing the button of the active key keeps the key and turns
  the direction round.
\<close>

theorem toggle_sort:
  "(by \<noteq> sortBy s \<longrightarrow>
      sortBy (toggleSort by s) = by \<and> sortDir (toggleSort by s) = Desc) \<and>
   (by = sortBy s \<longrightarrow>
      sortBy (toggleSort by s) = sortBy s \<and>
      (sortDir s = Asc \<longrightarrow> sortDir (toggleSort by s) = Desc) \<and>
      (sortDir s = Desc \<longrightarrow> sortDir (toggleSort by s) = Asc))"
  by (simp add: toggleSort_def)

theorem toggle_sort_witness:
  "sortBy (toggleSort Amount (init ''2024-01-07'')) = Amount \<and>
   sortDir (toggleSort Amount (init ''2024-01-07'')) = Desc \<and>
   sortBy (toggleSort Date (init ''2024-01-07'')) = Date \<and>
   sortDir (toggleSort Date (init ''2024-01-07'')) = Asc \<and>
   sortDir (toggleSort Date (toggleSort Date (init ''2024-01-07''))) = Desc"
proof -
  have a: "sortBy (init ''2024-01-07'') = Date" "sortDir (init ''2024-01-07'') = Desc"
    by (simp_all add: init_def)
  have b: "sortBy (toggleSort Date (init ''2024-01-07'')) = Date"
    "sortDir (toggleSort Date (init ''2024-01-07'')) = Asc"
    using a toggle_sort [of Date "init ''2024-01-07''"] by simp_all
  from a b toggle_sort [of Amount "init ''2024-01-07''"]
    toggle_sort [of Date "toggleSort Date (init ''2024-01-07'')"]
  show ?thesis by simp
qed

lemma length_insort_cmp: "length (insort_cmp c x xs) = Suc (length xs)"
  by (induction xs) simp_all

lemma length_sort_js: "length (sort_js c xs) = length xs"
  by (induction xs) (simp_all add: sort_js_def length_insort_cmp)

lemma length_sorted_earnings: "length (sorted_earnings h s) = length (earnings s)"
  by (simp add: sorted_earnings_def length_sort_js)

lemma totalPages_eq:
  "totalPages h s = max 1 \<lceil>(of_nat (length (earnings s)) :: rat) / of_int (pageSize s)\<rceil>"
  by (simp add: totalPages_def length_sorted_earnings)

lemma totalPages_ge_1: "1 \<le> totalPages h s"
  by (simp add: totalPages_def)

lemma ceiling_pages:
  fixes n :: nat and p k :: int
  assumes "0 < p"
  shows "\<lceil>(of_nat n :: rat) / of_int p\<rceil> \<le> k \<longleftrightarrow> int n \<le> k * p"
proof -
  have "\<lceil>(of_nat n :: rat) / of_int p\<rceil> \<le> k \<longleftrightarrow> (of_nat n :: rat) / of_int p \<le> of_int k"
    by (simp add: ceiling_le_iff)
  also have "\<dots> \<longleftrightarrow> (of_nat n :: rat) \<le> of_int k * of_int p"
    using assms by (simp add: pos_divide_le_eq)
  also have "\<dots> \<longleftrightarrow> (of_int (int n) :: rat) \<le> of_int (k * p)"
    by simp
  also have "\<dots> \<longleftrightarrow> int n \<le> k * p"
    by (simp only: of_int_le_iff)
  finally show ?thesis .
qed

lemma totalPages_least:
  assumes "0 < pageSize s"
  shows "int (length (earnings s)) \<le> totalPages h s * pageSize s"
    and "1 \<le> k \<Longrightarrow> int (length (earnings s)) \<le> k * pageSize s \<Longrightarrow> totalPages h s \<le> k"
proof -
  let ?c = "\<lceil>(of_nat (length (earnings s)) :: rat) / of_int (pageSize s)\<rceil>"
  have "?c \<le> totalPages h s" by (simp add: totalPages_eq)
  then show "int (length (earnings s)) \<le> totalPages h s * pageSize s"
    using ceiling_pages [OF assms] by simp
  assume "1 \<le> k" "int (length (earnings s)) \<le> k * pageSize s"
  then have "?c \<le> k" using ceiling_pages [OF assms] by simp
  with \<open>1 \<le> k\<close> show "totalPages h s \<le> k" by (simp add: totalPages_eq)
qed

lemma currentPage_range: "1 \<le> currentPage h s \<and> currentPage h s \<le> totalPages h s"
  using totalPages_ge_1 [of h s] by (simp add: currentPage_def)

lemma totalPages_cong:
  "length (earnings s') = length (earnings s) \<Longrightarrow> pageSize s' = pageSize s \<Longrightarrow>
   totalPages h s' = totalPages h s"
  by (simp add: totalPages_eq)

lemma pageSize_handle:
  "pageSize s \<in> {5, 10, 20} \<Longrightarrow> pageSize (handle h now today ev s) \<in> {5, 10, 20}"
proof (cases ev)
  case PressSubmit
  have "pageSize (fold handleAdd es s) = pageSize s" for es
    by (induction es arbitrary: s) (simp_all add: handleAdd_def)
  moreover assume "pageSize s \<in> {5, 10, 20}"
  ultimately show ?thesis using PressSubmit by (simp add: submit_def Let_def)
next
  case (PressSize b)
  then show ?thesis by (cases b) (simp_all add: changePageSize_def)
qed (auto simp: cancel_def handleCancelEdit_def handleEdit_def handleDelete_def toggleSort_def
      prevPage_def nextPage_def)

lemma page_handle:
  assumes "1 \<le> page s" "page s \<le> totalPages h s"
    and "length (earnings (handle h now today ev s)) = length (earnings s)"
    and "pageSize (handle h now today ev s) = pageSize s"
  shows "1 \<le> page (handle h now today ev s) \<and>
         page (handle h now today ev s) \<le> totalPages h (handle h now today ev s)"
proof -
  have t: "totalPages h (handle h now today ev s) = totalPages h s"
    using assms(3,4) by (rule totalPages_cong)
  have f: "page (fold handleAdd es s) = page s" for es
    by (induction es arbitrary: s) (simp_all add: handleAdd_def)
  have "1 \<le> page (handle h now today ev s) \<and> page (handle h now today ev s) \<le> totalPages h s"
    using assms(1,2) totalPages_ge_1 [of h s]
    by (cases ev)
      (auto simp: submit_def Let_def f cancel_def handleCancelEdit_def handleEdit_def
        handleDelete_def toggleSort_def changePageSize_def prevPage_def nextPage_def)
  with t show ?thesis by simp
qed

lemma page_ok_step:
  assumes "page_ok h s"
  shows "page_ok h (step h s ce)"
proof -
  obtain now today ev where ce: "ce = ((now, today), ev)"
    by (metis surj_pair)
  let ?s1 = "handle h now today ev s"
  let ?s2 = "effects h today s ?s1"
  have ps: "pageSize ?s1 \<in> {5, 10, 20}"
    using assms pageSize_handle [of s h now today ev] by (simp add: page_ok_def)
  have e: "earnings ?s2 = earnings ?s1" "pageSize ?s2 = pageSize ?s1"
    by (simp_all add: effects_def Let_def)
  have t: "totalPages h ?s2 = totalPages h ?s1"
    by (rule totalPages_cong) (simp_all add: e)
  have "1 \<le> page ?s2 \<and> page ?s2 \<le> totalPages h ?s1"
  proof (cases "(length (earnings ?s1), pageSize ?s1, sortBy ?s1, sortDir ?s1)
                  = (length (earnings s), pageSize s, sortBy s, sortDir s)")
    case True
    then have "page ?s2 = page ?s1" by (simp add: effects_def Let_def)
    moreover have "1 \<le> page ?s1 \<and> page ?s1 \<le> totalPages h ?s1"
      using assms True by (intro page_handle) (simp_all add: page_ok_def)
    ultimately show ?thesis by simp
  next
    case False
    then have "page ?s2 = 1" by (auto simp: effects_def Let_def)
    then show ?thesis using totalPages_ge_1 [of h ?s1] by simp
  qed
  with ps e t show ?thesis by (simp add: page_ok_def step_def ce)
qed

lemma page_ok_init: "page_ok h (init today)"
  using totalPages_ge_1 [of h "init today"] by (simp add: page_ok_def init_def)

lemma page_ok_foldl: "page_ok h s \<Longrightarrow> page_ok h (foldl (step h) s evs)"
  by (induction evs arbitrary: s) (simp_all add: page_ok_step)

lemma page_ok_run: "page_ok h (run h today evs)"
  by (simp add: run_def page_ok_foldl page_ok_init)

lemma take_drop_nth:
  "take m (drop a xs) = map (\<lambda>i. xs ! i) [a..<min (a + m) (length xs)]"
  by (auto simp: list_eq_iff_nth_eq)

lemma slice_nonneg:
  assumes "0 \<le> a" "a \<le> b"
  shows "slice xs a b = map (\<lambda>i. xs ! i) [nat a..<min (nat b) (length xs)]"
proof -
  let ?len = "int (length xs)"
  have "slice xs a b = take (nat (min b ?len - min a ?len)) (drop (nat (min a ?len)) xs)"
    using assms by (simp add: slice_def Let_def)
  also have "\<dots> = map (\<lambda>i. xs ! i)
      [nat (min a ?len)..<min (nat (min a ?len) + nat (min b ?len - min a ?len)) (length xs)]"
    by (rule take_drop_nth)
  also have "min (nat (min a ?len) + nat (min b ?len - min a ?len)) (length xs)
      = min (nat b) (length xs)"
    using assms by (simp add: min_def; linarith)
  also have "[nat (min a ?len)..<min (nat b) (length xs)] = [nat a..<min (nat b) (length xs)]"
    using assms by (cases "a \<le> ?len") (simp_all add: min_def)
  finally show ?thesis .
qed

lemma third_page_facts:
  "length (earnings third_page) = 12" "pageSize third_page = 5" "page third_page = 3"
  by (simp_all add: third_page_def with_ledger_def init_def)

text \<open>
  C7. With \<open>n\<close> records and a positive page size \<open>p\<close>, the number of pages is the ceiling
  of \<open>n / p\<close>, and at least 1: it is the least \<open>k\<close> from 1 on with \<open>n \<le> k * p\<close>; and the
  current page shown lies between 1 and the number of pages, whatever the state. After
  any sequence of events the page size is 5, 10 or 20 and the page kept in the state is
  itself between 1 and the number of pages, so it is the current page.
\<close>

theorem page_bounds:
  "(0 < pageSize s \<longrightarrow>
      totalPages h s = max 1 \<lceil>(of_nat (length (earnings s)) :: rat) / of_int (pageSize s)\<rceil> \<and>
      int (length (earnings s)) \<le> totalPages h s * pageSize s \<and>
      (\<forall>k. 1 \<le> k \<and> int (length (earnings s)) \<le> k * pageSize s \<longrightarrow> totalPages h s \<le> k) \<and>
      1 \<le> currentPage h s \<and> currentPage h s \<le> totalPages h s) \<and>
   pageSize (run h today evs) \<in> {5, 10, 20} \<and>
   1 \<le> page (run h today evs) \<and> page (run h today evs) \<le> totalPages h (run h today evs) \<and>
   currentPage h (run h today evs) = page (run h today evs)"
proof -
  have r: "page_ok h (run h today evs)" by (rule page_ok_run)
  then have "currentPage h (run h today evs) = page (run h today evs)"
    by (simp add: currentPage_def page_ok_def)
  with r show ?thesis
    using totalPages_least [where s = s and h = h] currentPage_range [of h s]
      totalPages_eq [of h s]
    by (simp add: page_ok_def)
qed

theorem page_bounds_witness:
  "0 < pageSize third_page \<and>
   int (length (earnings third_page)) \<le> totalPages plain_host third_page * pageSize third_page \<and>
   totalPages plain_host third_page = 3 \<and>
   currentPage plain_host third_page = 3"
proof -
  have a: "0 < pageSize third_page" by (simp add: third_page_facts)
  have b: "(1::int) \<le> 3 \<and> int (length (earnings third_page)) \<le> 3 * pageSize third_page"
    by (simp add: third_page_facts)
  from a b page_bounds [of third_page plain_host]
  have c: "int (length (earnings third_page)) \<le> totalPages plain_host third_page * pageSize third_page"
    and d: "totalPages plain_host third_page \<le> 3"
    by blast+
  from c have "3 \<le> totalPages plain_host third_page"
    by (simp add: third_page_facts)
  with d have e: "totalPages plain_host third_page = 3" by simp
  then have "currentPage plain_host third_page = 3"
    by (simp add: currentPage_def third_page_facts)
  with a c e show ?thesis by simp
qed

text \<open>
  C8. The page shown holds the elements of the sorted list at the indices from
  \<open>(page - 1) * pageSize\<close> up to, and without, \<open>page * pageSize\<close>, as far as the list goes,
  in the order of the sorted list; \<open>page\<close> is the current page.
\<close>

theorem page_slice:
  assumes "0 < pageSize s"
  shows "paginated h s =
           map (\<lambda>i. sorted_earnings h s ! i)
             [nat ((currentPage h s - 1) * pageSize s)
              ..<min (nat (currentPage h s * pageSize s)) (length (sorted_earnings h s))]"
proof -
  have c: "1 \<le> currentPage h s" using currentPage_range by simp
  have a: "0 \<le> (currentPage h s - 1) * pageSize s"
    using c assms by simp
  have b: "(currentPage h s - 1) * pageSize s + pageSize s = currentPage h s * pageSize s"
    by (simp add: algebra_simps)
  have "(currentPage h s - 1) * pageSize s \<le> currentPage h s * pageSize s"
    using assms b by linarith
  with a show ?thesis
    by (simp add: paginated_def Let_def b slice_nonneg)
qed

theorem page_slice_witness:
  "paginated plain_host third_page
     = [sorted_earnings plain_host third_page ! 10, sorted_earnings plain_host third_page ! 11]"
proof -
  have a: "0 < pageSize third_page" by (simp add: third_page_facts)
  have "\<lceil>(12::rat) / 5\<rceil> = 3"
    by (rule ceiling_unique) simp_all
  then have t: "totalPages plain_host third_page = 3"
    by (simp add: totalPages_eq third_page_facts)
  have c: "currentPage plain_host third_page = 3"
    by (simp add: currentPage_def t third_page_facts)
  have u: "[10..<12] = [10, 11::nat]"
    by (simp add: upt_rec)
  from page_slice [OF a, of plain_host] show ?thesis
    by (simp add: c third_page_facts length_sorted_earnings u)
qed

section \<open>Properties of the sorted view\<close>

subsection \<open>The sort, for any comparator\<close>

lemma mset_insort_cmp: "mset (insort_cmp c x xs) = add_mset x (mset xs)"
  by (induction xs) simp_all

lemma mset_sort_js: "mset (sort_js c xs) = mset xs"
  by (induction xs) (simp_all add: sort_js_def mset_insort_cmp)

lemma set_insort_cmp: "set (insort_cmp c x xs) = insert x (set xs)"
  by (induction xs) auto

lemma sort_js_Cons: "sort_js c (x # xs) = insort_cmp c x (sort_js c xs)"
  by (simp add: sort_js_def)

lemma sorted_insort_cmp:
  assumes tot: "\<And>a b. gt_zero (c a b) \<Longrightarrow> \<not> gt_zero (c b a)"
    and trans: "\<And>a b d. \<not> gt_zero (c a b) \<Longrightarrow> \<not> gt_zero (c b d) \<Longrightarrow> \<not> gt_zero (c a d)"
    and "sorted_wrt (\<lambda>a b. \<not> gt_zero (c a b)) xs"
  shows "sorted_wrt (\<lambda>a b. \<not> gt_zero (c a b)) (insort_cmp c x xs)"
  using assms(3)
proof (induction xs)
  case Nil
  then show ?case by simp
next
  case (Cons y ys)
  from Cons.prems have ys: "\<forall>z\<in>set ys. \<not> gt_zero (c y z)"
    and s: "sorted_wrt (\<lambda>a b. \<not> gt_zero (c a b)) ys"
    by simp_all
  show ?case
  proof (cases "gt_zero (c x y)")
    case True
    from s have "sorted_wrt (\<lambda>a b. \<not> gt_zero (c a b)) (insort_cmp c x ys)"
      by (rule Cons.IH)
    moreover from True have "\<not> gt_zero (c y x)" by (rule tot)
    ultimately show ?thesis using True ys by (simp add: set_insort_cmp)
  next
    case False
    have "\<forall>z\<in>set ys. \<not> gt_zero (c x z)"
    proof
      fix z assume "z \<in> set ys"
      with ys have "\<not> gt_zero (c y z)" by simp
      with False show "\<not> gt_zero (c x z)" by (rule trans)
    qed
    with False ys s show ?thesis by simp
  qed
qed

lemma sorted_sort_js:
  assumes tot: "\<And>a b. gt_zero (c a b) \<Longrightarrow> \<not> gt_zero (c b a)"
    and trans: "\<And>a b d. \<not> gt_zero (c a b) \<Longrightarrow> \<not> gt_zero (c b d) \<Longrightarrow> \<not> gt_zero (c a d)"
  shows "sorted_wrt (\<lambda>a b. \<not> gt_zero (c a b)) (sort_js c xs)"
proof (induction xs)
  case Nil
  show ?case by (simp add: sort_js_def)
next
  case (Cons x xs)
  have "sorted_wrt (\<lambda>a b. \<not> gt_zero (c a b)) (insort_cmp c x (sort_js c xs))"
    using tot trans Cons by (rule sorted_insort_cmp)
  then show ?case by (simp only: sort_js_Cons)
qed

lemma filter_insort_cmp_out: "\<not> P x \<Longrightarrow> filter P (insort_cmp c x xs) = filter P xs"
  by (induction xs) simp_all

lemma filter_insort_cmp_in:
  assumes "P x" and "\<And>y. P y \<Longrightarrow> \<not> gt_zero (c x y)"
  shows "filter P (insort_cmp c x xs) = x # filter P xs"
  using assms by (induction xs) auto

lemma stable_sort_js:
  assumes trans: "\<And>a b d. \<not> gt_zero (c a b) \<Longrightarrow> \<not> gt_zero (c b d) \<Longrightarrow> \<not> gt_zero (c a d)"
  shows "filter (\<lambda>b. \<not> gt_zero (c a b) \<and> \<not> gt_zero (c b a)) (sort_js c xs)
       = filter (\<lambda>b. \<not> gt_zero (c a b) \<and> \<not> gt_zero (c b a)) xs"
proof (induction xs)
  case Nil
  show ?case by (simp add: sort_js_def)
next
  case (Cons x xs)
  let ?P = "\<lambda>b. \<not> gt_zero (c a b) \<and> \<not> gt_zero (c b a)"
  show ?case
  proof (cases "?P x")
    case True
    have "\<not> gt_zero (c x y)" if "?P y" for y
    proof -
      from True have "\<not> gt_zero (c x a)" by simp
      moreover from that have "\<not> gt_zero (c a y)" by simp
      ultimately show ?thesis by (rule trans)
    qed
    with True have "filter ?P (insort_cmp c x (sort_js c xs)) = x # filter ?P (sort_js c xs)"
      by (intro filter_insort_cmp_in) simp_all
    also have "\<dots> = x # filter ?P xs" by (simp only: Cons.IH)
    also have "\<dots> = filter ?P (x # xs)" using True by simp
    finally show ?thesis by (simp only: sort_js_Cons)
  next
    case False
    then have "filter ?P (insort_cmp c x (sort_js c xs)) = filter ?P (sort_js c xs)"
      by (rule filter_insort_cmp_out)
    also have "\<dots> = filter ?P xs" by (simp only: Cons.IH)
    also have "\<dots> = filter ?P (x # xs)" using False by simp
    finally show ?thesis by (simp only: sort_js_Cons)
  qed
qed

subsection \<open>The comparators of the application\<close>

lemma or_zero_cases:
  obtains "or_zero x = NegInf" | "or_zero x = PosInf" | r where "or_zero x = Fin r"
  by (cases x) simp_all

lemma gt_zero_sub: "gt_zero (sub (or_zero x) (or_zero y)) \<longleftrightarrow> \<not> num_le (or_zero x) (or_zero y)"
  by (cases x; cases y) (auto simp: sub_def)

lemma comparator_in_order:
  "\<not> gt_zero (comparator h by dir a b) \<longleftrightarrow> in_order h by dir a b"
  by (cases "by"; cases dir)
    (auto simp: comparator_def compare_date_def compare_amount_def in_order_def Let_def gt_zero_sub)

lemma num_le_total: "num_le (or_zero x) (or_zero y) \<or> num_le (or_zero y) (or_zero x)"
  by (cases x; cases y) auto

lemma num_le_trans:
  "num_le (or_zero x) (or_zero y) \<Longrightarrow> num_le (or_zero y) (or_zero z)
   \<Longrightarrow> num_le (or_zero x) (or_zero z)"
  by (cases x; cases y; cases z) auto

lemma collation_total:
  assumes "collation lc"
  shows "lc x y \<le> 0 \<or> lc y x \<le> 0"
proof (cases "0 < lc x y")
  case True
  with assms have "lc y x < 0" unfolding collation_def by blast
  then show ?thesis by simp
next
  case False
  then show ?thesis by simp
qed

lemma collation_trans:
  assumes "collation lc" "lc x y \<le> 0" "lc y z \<le> 0"
  shows "lc x z \<le> 0"
  using assms unfolding collation_def by blast

lemma in_order_total:
  assumes "collation (localeCompare h)"
  shows "in_order h by dir a b \<or> in_order h by dir b a"
proof (cases "by")
  case Date
  show ?thesis
  proof (cases dir)
    case Asc
    with Date collation_total [OF assms, of "date a" "date b"] show ?thesis
      by (simp add: in_order_def) blast
  next
    case Desc
    with Date collation_total [OF assms, of "date a" "date b"] show ?thesis
      by (simp add: in_order_def) blast
  qed
next
  case Amount
  show ?thesis
  proof (cases dir)
    case Asc
    with Amount num_le_total [of "amount a" "amount b"] show ?thesis
      by (simp add: in_order_def)
  next
    case Desc
    with Amount num_le_total [of "amount a" "amount b"] show ?thesis
      by (simp add: in_order_def) blast
  qed
qed

lemma in_order_trans:
  assumes "collation (localeCompare h)"
    and "in_order h by dir a b" "in_order h by dir b d"
  shows "in_order h by dir a d"
proof (cases "by")
  case Date
  note t = collation_trans [OF assms(1)]
  show ?thesis
  proof (cases dir)
    case Asc
    with Date assms(2,3) t [of "date a" "date b" "date d"] show ?thesis
      by (simp add: in_order_def) metis
  next
    case Desc
    with Date assms(2,3) t [of "date d" "date b" "date a"] show ?thesis
      by (simp add: in_order_def) metis
  qed
next
  case Amount
  show ?thesis
  proof (cases dir)
    case Asc
    with Amount assms(2,3) num_le_trans [of "amount a" "amount b" "amount d"] show ?thesis
      by (simp add: in_order_def)
  next
    case Desc
    with Amount assms(2,3) num_le_trans [of "amount d" "amount b" "amount a"] show ?thesis
      by (simp add: in_order_def)
  qed
qed

lemma sorted_memo_eq:
  "sorted_memo h by dir m r = (m @ [sort_js (comparator h by dir) (m ! r)], length m)"
  by (simp add: sorted_memo_def spread_def sort_in_place_def comparator_def)

lemma compare_codes_swap: "(0 < compare_codes a b) = (compare_codes b a < 0)"
  by (induction a b rule: compare_codes.induct) auto

lemma compare_codes_trans:
  "compare_codes a b \<le> 0 \<Longrightarrow> compare_codes b c \<le> 0 \<Longrightarrow> compare_codes a c \<le> 0"
proof (induction a arbitrary: b c)
  case Nil
  then show ?case by (cases c) simp_all
next
  case (Cons x xs)
  from Cons.prems(1) obtain y ys where b: "b = y # ys"
    by (cases b) simp_all
  from Cons.prems(2) b obtain z zs where c: "c = z # zs"
    by (cases c) simp_all
  from Cons.prems(1) b have xy: "(of_char x :: nat) \<le> of_char y"
    by (simp split: if_splits)
  from Cons.prems(2) b c have yz: "(of_char y :: nat) \<le> of_char z"
    by (simp split: if_splits)
  show ?case
  proof (cases "(of_char x :: nat) < of_char z")
    case True
    then show ?thesis by (simp add: c)
  next
    case False
    with xy yz have e: "(of_char x :: nat) = of_char y" "(of_char y :: nat) = of_char z"
      by linarith+
    with Cons.prems b c have "compare_codes xs ys \<le> 0" "compare_codes ys zs \<le> 0"
      by simp_all
    then have "compare_codes xs zs \<le> 0" by (rule Cons.IH)
    with e show ?thesis by (simp add: c)
  qed
qed

lemma collation_plain_host: "collation (localeCompare plain_host)"
  unfolding collation_def plain_host_def
  using compare_codes_swap compare_codes_trans by (simp, blast)

lemma unsorted_facts:
  "earnings unsorted = [first_entry, second_entry, first_edited]"
  "sortBy unsorted = Date" "sortDir unsorted = Desc"
  by (simp_all add: unsorted_def with_ledger_def init_def)

lemma sorted_unsorted:
  "sorted_earnings plain_host unsorted = [second_entry, first_entry, first_edited]"
  by code_simp

text \<open>
  C6. For every ledger, sort key and direction, with a \<open>localeCompare\<close> that orders the
  strings: the sorted view has the records of the ledger, each as often as the ledger
  has it; it is ordered by the key in the direction; the records that compare equal to
  any given record on the key stand in the view in the order they have in the ledger;
  and the sort works on a new array, so that the array of the ledger, and every other
  array there was, is as before.
\<close>

theorem sorted_view:
  assumes "collation (localeCompare h)"
  shows "mset (sorted_earnings h s) = mset (earnings s) \<and>
         sorted_wrt (in_order h (sortBy s) (sortDir s)) (sorted_earnings h s) \<and>
         (\<forall>a. filter (same_key h (sortBy s) (sortDir s) a) (sorted_earnings h s)
               = filter (same_key h (sortBy s) (sortDir s) a) (earnings s)) \<and>
         (r < length m \<and> m ! r = earnings s \<longrightarrow>
            (case sorted_memo h (sortBy s) (sortDir s) m r of
               (m', arr) \<Rightarrow> m' ! arr = sorted_earnings h s \<and> m' ! r = earnings s \<and>
                             take (length m) m' = m))"
proof -
  let ?c = "comparator h (sortBy s) (sortDir s)"
  have tot: "gt_zero (?c a b) \<Longrightarrow> \<not> gt_zero (?c b a)" for a b
    using in_order_total [OF assms, of "sortBy s" "sortDir s" a b]
      comparator_in_order [of h "sortBy s" "sortDir s" a b]
      comparator_in_order [of h "sortBy s" "sortDir s" b a]
    by blast
  have trans: "\<not> gt_zero (?c a b) \<Longrightarrow> \<not> gt_zero (?c b d) \<Longrightarrow> \<not> gt_zero (?c a d)" for a b d
    using in_order_trans [OF assms, of "sortBy s" "sortDir s" a b d]
    by (simp add: comparator_in_order)
  have le: "in_order h (sortBy s) (sortDir s) = (\<lambda>a b. \<not> gt_zero (?c a b))"
    by (simp add: fun_eq_iff comparator_in_order)
  have sk: "same_key h (sortBy s) (sortDir s) a = (\<lambda>b. \<not> gt_zero (?c a b) \<and> \<not> gt_zero (?c b a))"
    for a
    by (simp add: fun_eq_iff same_key_def comparator_in_order)
  have 1: "mset (sorted_earnings h s) = mset (earnings s)"
    by (simp add: sorted_earnings_def mset_sort_js)
  have 2: "sorted_wrt (in_order h (sortBy s) (sortDir s)) (sorted_earnings h s)"
    unfolding le sorted_earnings_def using tot trans by (rule sorted_sort_js)
  have 3: "filter (same_key h (sortBy s) (sortDir s) a) (sorted_earnings h s)
             = filter (same_key h (sortBy s) (sortDir s) a) (earnings s)" for a
    unfolding sk sorted_earnings_def using trans by (rule stable_sort_js)
  have 4: "r < length m \<and> m ! r = earnings s \<longrightarrow>
            (case sorted_memo h (sortBy s) (sortDir s) m r of
               (m', arr) \<Rightarrow> m' ! arr = sorted_earnings h s \<and> m' ! r = earnings s \<and>
                             take (length m) m' = m)"
    by (simp add: sorted_memo_eq sorted_earnings_def nth_append)
  from 1 2 3 4 show ?thesis by blast
qed

theorem sorted_view_witness:
  "mset (sorted_earnings plain_host unsorted) = mset [first_entry, second_entry, first_edited] \<and>
   sorted_wrt (in_order plain_host Date Desc) (sorted_earnings plain_host unsorted) \<and>
   filter (same_key plain_host Date Desc first_entry) (sorted_earnings plain_host unsorted)
     = [first_entry, first_edited] \<and>
   sorted_earnings plain_host unsorted = [second_entry, first_entry, first_edited] \<and>
   fst (sorted_memo plain_host Date Desc [earnings unsorted] 0) ! 0 = earnings unsorted \<and>
   fst (sorted_memo plain_host Date Desc [earnings unsorted] 0) ! 1
     = sorted_earnings plain_host unsorted"
proof -
  have k: "same_key plain_host Date Desc first_entry first_entry"
    "\<not> same_key plain_host Date Desc first_entry second_entry"
    "same_key plain_host Date Desc first_entry first_edited"
    by (simp_all add: same_key_def in_order_def plain_host_def sample_defs)
  have m: "(0::nat) < length [earnings unsorted] \<and> [earnings unsorted] ! 0 = earnings unsorted"
    by simp
  note v = sorted_view [OF collation_plain_host, of unsorted 0 "[earnings unsorted]"]
  from v have 1: "mset (sorted_earnings plain_host unsorted) = mset (earnings unsorted)"
    by simp
  from v have 2: "sorted_wrt (in_order plain_host (sortBy unsorted) (sortDir unsorted))
           (sorted_earnings plain_host unsorted)"
    by simp
  from v have 3: "filter (same_key plain_host (sortBy unsorted) (sortDir unsorted) first_entry)
           (sorted_earnings plain_host unsorted)
         = filter (same_key plain_host (sortBy unsorted) (sortDir unsorted) first_entry)
           (earnings unsorted)"
    by simp
  from v m have 4: "fst (sorted_memo plain_host (sortBy unsorted) (sortDir unsorted)
                      [earnings unsorted] 0) ! 0 = earnings unsorted \<and>
    fst (sorted_memo plain_host (sortBy unsorted) (sortDir unsorted) [earnings unsorted] 0) ! 1
      = sorted_earnings plain_host unsorted"
    by (simp add: sorted_memo_eq split: prod.splits)
  from 1 2 3 4 sorted_unsorted show ?thesis
    by (simp add: unsorted_facts k)
qed

section \<open>Properties of the ledger view\<close>

lemma or_zero_not_NaN: "\<not> isNaN x \<Longrightarrow> or_zero x = x"
  by (cases x) simp_all

lemma total_left_to_right:
  "\<forall>e\<in>set es. \<not> isNaN (amount e) \<Longrightarrow>
   foldl (\<lambda>s e. add_rounded h s (or_zero (amount e))) acc es = sum_amounts h acc es"
  by (induction es arbitrary: acc) (simp_all add: or_zero_not_NaN)

lemma amount_sum_Cons: "amount_sum (e # es) = value_of (amount e) + amount_sum es"
  by (simp add: amount_sum_def)

lemma total_exact_from:
  assumes "\<forall>e\<in>set es. is_finite (amount e)"
    and "\<forall>k\<le>length es. rounding h (a + amount_sum (take k es)) = Fin (a + amount_sum (take k es))"
  shows "foldl (\<lambda>s e. add_rounded h s (or_zero (amount e))) (Fin a) es = Fin (a + amount_sum es)"
  using assms
proof (induction es arbitrary: a)
  case Nil
  then show ?case by (simp add: amount_sum_def)
next
  case (Cons e es)
  from Cons.prems(1) obtain x where x: "amount e = Fin x"
    by (cases "amount e") simp_all
  have "1 \<le> length (e # es)" by simp
  with Cons.prems(2) have "rounding h (a + amount_sum (take 1 (e # es)))
      = Fin (a + amount_sum (take 1 (e # es)))"
    by blast
  then have r: "rounding h (a + x) = Fin (a + x)"
    by (simp add: amount_sum_def x)
  have f: "\<forall>e\<in>set es. is_finite (amount e)" using Cons.prems(1) by simp
  have "\<forall>k\<le>length es. rounding h (a + x + amount_sum (take k es))
          = Fin (a + x + amount_sum (take k es))"
  proof (intro allI impI)
    fix k assume "k \<le> length es"
    then have "Suc k \<le> length (e # es)" by simp
    with Cons.prems(2) have "rounding h (a + amount_sum (take (Suc k) (e # es)))
        = Fin (a + amount_sum (take (Suc k) (e # es)))"
      by blast
    then show "rounding h (a + x + amount_sum (take k es)) = Fin (a + x + amount_sum (take k es))"
      by (simp add: amount_sum_Cons x add.assoc)
  qed
  with f have "foldl (\<lambda>s e. add_rounded h s (or_zero (amount e))) (Fin (a + x)) es
      = Fin (a + x + amount_sum es)"
    by (rule Cons.IH)
  then show ?case
    by (simp add: x add_rounded_def r amount_sum_Cons add.assoc)
qed

lemma total_exact:
  assumes "\<forall>e\<in>set es. is_finite (amount e)"
    and "\<forall>k\<le>length es. rounding h (amount_sum (take k es)) = Fin (amount_sum (take k es))"
  shows "total_of h es = Fin (amount_sum es)"
  using total_exact_from [of es h 0] assms by (simp add: total_of_def)

lemma nearest_hundredth:
  fixes x :: rat
  assumes "0 \<le> x"
  shows "\<bar>of_nat (nat \<lfloor>x * 100 + 1 / 2\<rfloor>) / 100 - x\<bar> \<le> 1 / 200"
proof -
  define n where "n = \<lfloor>x * 100 + 1 / 2\<rfloor>"
  have "0 \<le> n" using assms by (simp add: n_def)
  then have n: "(of_nat (nat n) :: rat) = of_int n" by simp
  have "of_int n \<le> x * 100 + 1 / 2" "x * 100 + 1 / 2 < of_int n + 1"
    unfolding n_def by linarith+
  then have "\<bar>of_int n / 100 - x\<bar> \<le> 1 / 200"
    by linarith
  then show ?thesis by (simp only: n n_def [symmetric])
qed

lemma toFixed2_two_places:
  assumes "\<bar>x\<bar> < 10 ^ 21"
  shows "\<exists>n. toFixed2 h (Fin x)
           = (if x < 0 then ''-'' else []) @ digits (n div 100) @ ''.''
               @ digits (n mod 100 div 10) @ digits (n mod 10) \<and>
         \<bar>of_nat n / 100 - \<bar>x\<bar>\<bar> \<le> 1 / 200"
proof (cases "x < 0")
  case True
  with assms have "toFixed2 h (Fin x) = ''-'' @ fixed2 (- x)" by simp
  moreover from True have "\<bar>x\<bar> = - x" by simp
  ultimately show ?thesis
    using True nearest_hundredth [of "- x"]
    by (intro exI [of _ "nat \<lfloor>- x * 100 + 1 / 2\<rfloor>"]) (simp add: fixed2_def Let_def)
next
  case False
  with assms have "toFixed2 h (Fin x) = fixed2 x" by simp
  moreover from False have "\<bar>x\<bar> = x" by simp
  ultimately show ?thesis
    using False nearest_hundredth [of x]
    by (intro exI [of _ "nat \<lfloor>x * 100 + 1 / 2\<rfloor>"]) (simp add: fixed2_def Let_def)
qed

lemma length_slice_le:
  assumes "0 \<le> a" "0 \<le> p"
  shows "length (slice xs a (a + p)) \<le> nat p"
proof -
  let ?len = "int (length xs)"
  have "slice xs a (a + p)
      = take (nat (min (a + p) ?len - min a ?len)) (drop (nat (min a ?len)) xs)"
    using assms by (simp add: slice_def Let_def)
  then have "length (slice xs a (a + p)) \<le> nat (min (a + p) ?len - min a ?len)"
    by simp
  also have "\<dots> \<le> nat p" using assms by (simp add: min_def; linarith)
  finally show ?thesis .
qed

lemma mset_slice: "mset (slice xs a b) \<subseteq># mset xs"
proof -
  have "mset (take m (drop k xs)) \<subseteq># mset xs" for m k
  proof -
    have "mset xs = mset (take k xs) + (mset (take m (drop k xs)) + mset (drop m (drop k xs)))"
      by (metis append_take_drop_id mset_append)
    then show ?thesis
      by (metis mset_subset_eq_add_left mset_subset_eq_add_right subset_mset.order_trans)
  qed
  then show ?thesis by (simp add: slice_def Let_def)
qed

lemma page_of_ledger:
  assumes "0 < pageSize s"
  shows "length (paginated h s) \<le> nat (pageSize s)"
    and "mset (paginated h s) \<subseteq># mset (earnings s)"
proof -
  have "1 \<le> currentPage h s" using currentPage_range by simp
  with assms have "0 \<le> (currentPage h s - 1) * pageSize s" by simp
  with assms show "length (paginated h s) \<le> nat (pageSize s)"
    by (simp add: paginated_def Let_def length_slice_le)
  have "mset (paginated h s) \<subseteq># mset (sorted_earnings h s)"
    by (simp add: paginated_def Let_def mset_slice)
  then show "mset (paginated h s) \<subseteq># mset (earnings s)"
    by (simp add: sorted_earnings_def mset_sort_js)
qed

lemma six_run: "earnings (run plain_host ''2024-01-05'' six_adds) = map entry_no (rev [0..<6])"
  by code_simp

lemma six_page:
  "paginated plain_host (run plain_host ''2024-01-05'' six_adds) = map entry_no (rev [1..<6])"
  by code_simp

lemma six_total: "total_of plain_host (map entry_no (rev [1..<6])) = Fin 5"
  by code_simp

lemma six_total_all: "total_of plain_host (map entry_no (rev [0..<6])) = Fin 6"
  by code_simp

lemma infinity_page:
  "paginated plain_host (run plain_host ''2024-01-05'' (add_text ''Infinity''))
     = [\<lparr>id_e = ''0'', amount = PosInf, date = ''2024-01-05'', note_e = []\<rparr>]"
  by code_simp

lemma infinity_total:
  "total_of plain_host [\<lparr>id_e = ''0'', amount = PosInf, date = ''2024-01-05'', note_e = []\<rparr>]
     = PosInf"
  by (simp add: total_of_def add_rounded_def)

lemma big_page:
  "paginated plain_host (run plain_host ''2024-01-05'' (add_text ''1e21''))
     = [\<lparr>id_e = ''0'', amount = Fin (10 ^ 21), date = ''2024-01-05'', note_e = []\<rparr>]"
  by code_simp

lemma big_total:
  "total_of plain_host [\<lparr>id_e = ''0'', amount = Fin (10 ^ 21), date = ''2024-01-05'', note_e = []\<rparr>]
     = Fin (10 ^ 21)"
  by (simp add: total_of_def add_rounded_def plain_host_def)

lemma toFixed2_big: "toFixed2 plain_host (Fin (10 ^ 21)) = ''1e+21''"
  by (simp add: plain_host_def)

lemma fixed2_whole: "fixed2 (of_nat k) = digits k @ ''.00''"
proof -
  have "\<lfloor>(of_nat k :: rat) * 100 + 1 / 2\<rfloor> = int (k * 100)"
    by (rule floor_unique) simp_all
  then have n: "nat \<lfloor>(of_nat k :: rat) * 100 + 1 / 2\<rfloor> = k * 100"
    by (simp only: nat_int)
  have "fixed2 (of_nat k)
      = digits (k * 100 div 100) @ ''.'' @ digits (k * 100 mod 100 div 10) @ digits (k * 100 mod 10)"
    by (simp only: fixed2_def Let_def n)
  also have "k * 100 mod 10 = 0" by presburger
  finally show ?thesis
    by (simp add: digits.simps [of 0])
qed

lemma toFixed2_2050: "toFixed2 plain_host (Fin 2050) = ''2050.00''"
  using fixed2_whole [of 2050] by (simp add: digits.simps)

lemma toFixed2_5: "toFixed2 plain_host (Fin 5) = ''5.00''"
  using fixed2_whole [of 5] by (simp add: digits.simps)

lemma toFixed2_6: "toFixed2 plain_host (Fin 6) = ''6.00''"
  using fixed2_whole [of 6] by (simp add: digits.simps)

lemma total_shown_App_list:
  "total_shown (App_list h s) = toFixed2 h (total_of h (paginated h s))"
  by (simp add: App_list_def EarningsList_def)

text \<open>
  C5, as stated, fails in two places. In the variant with pagination the list is given
  the current page, not the ledger: after six entries of amount 1 the ledger has six
  records, the page has five, and the total shown is \<open>5.00\<close>, while the amounts of the
  ledger sum to \<open>6.00\<close>. And the total is not always shown with two decimal places: after
  one entry of \<open>Infinity\<close>, which the form admits, it is shown as \<open>Infinity\<close>, and after one
  entry of \<open>1e21\<close> as \<open>1e+21\<close>.
\<close>

theorem total_scope_counterexample:
  "length (earnings (run plain_host ''2024-01-05'' six_adds)) = 6 \<and>
   length (paginated plain_host (run plain_host ''2024-01-05'' six_adds)) = 5 \<and>
   total_shown (App_list plain_host (run plain_host ''2024-01-05'' six_adds)) = ''5.00'' \<and>
   toFixed2 plain_host (total_of plain_host (earnings (run plain_host ''2024-01-05'' six_adds)))
     = ''6.00'' \<and>
   total_shown (App_list plain_host (run plain_host ''2024-01-05'' (add_text ''Infinity'')))
     = ''Infinity'' \<and>
   total_shown (App_list plain_host (run plain_host ''2024-01-05'' (add_text ''1e21'')))
     = ''1e+21''"
proof -
  let ?s = "run plain_host ''2024-01-05'' six_adds"
  have 1: "length (earnings ?s) = 6"
    by (simp only: six_run) simp
  have 2: "length (paginated plain_host ?s) = 5"
    by (simp only: six_page) simp
  have 3: "total_shown (App_list plain_host ?s) = ''5.00''"
    by (simp only: total_shown_App_list six_page six_total toFixed2_5)
  have 4: "toFixed2 plain_host (total_of plain_host (earnings ?s)) = ''6.00''"
    by (simp only: six_run six_total_all toFixed2_6)
  have 5: "total_shown (App_list plain_host (run plain_host ''2024-01-05'' (add_text ''Infinity'')))
      = ''Infinity''"
    by (simp only: total_shown_App_list infinity_page infinity_total toFixed2.simps)
  have 6: "total_shown (App_list plain_host (run plain_host ''2024-01-05'' (add_text ''1e21'')))
      = ''1e+21''"
    by (simp only: total_shown_App_list big_page big_total toFixed2_big)
  from 1 2 3 4 5 6 show ?thesis by simp
qed

text \<open>
  C5, amended. In every state, so after every sequence of inserts, updates and deletes,
  the total that the list shows is the sum of the amounts of the earnings it is given,
  formatted by \<open>toFixed(2)\<close>. The sum is taken as the program adds: from 0, one amount
  after the other, each sum rounded to a double; it is the exact sum of finite amounts
  when the rounding leaves every partial sum as it is. A finite total below \<open>10^21\<close> in
  magnitude is shown as the nearest number of hundredths, with two digits after the
  point. In the variant with pagination the list is given the current page of the sorted
  ledger, which has at most \<open>pageSize\<close> records, all of them records of the ledger; in the
  basic variant it is given the ledger.
\<close>

theorem total_scope:
  "total_shown (EarningsList h es) = toFixed2 h (total_of h es) \<and>
   rows (EarningsList h es) = es \<and>
   ((\<forall>e\<in>set es. \<not> isNaN (amount e)) \<longrightarrow> total_of h es = sum_amounts h (Fin 0) es) \<and>
   ((\<forall>e\<in>set es. is_finite (amount e)) \<and>
    (\<forall>k\<le>length es. rounding h (amount_sum (take k es)) = Fin (amount_sum (take k es))) \<longrightarrow>
      total_of h es = Fin (amount_sum es)) \<and>
   (\<bar>x\<bar> < 10 ^ 21 \<longrightarrow>
      (\<exists>n. toFixed2 h (Fin x)
             = (if x < 0 then ''-'' else []) @ digits (n div 100) @ ''.''
                 @ digits (n mod 100 div 10) @ digits (n mod 10) \<and>
           \<bar>of_nat n / 100 - \<bar>x\<bar>\<bar> \<le> 1 / 200)) \<and>
   App_list h s = EarningsList h (paginated h s) \<and>
   (0 < pageSize s \<longrightarrow>
      length (paginated h s) \<le> nat (pageSize s) \<and>
      mset (paginated h s) \<subseteq># mset (earnings s)) \<and>
   total_shown (App_basic_list h s) = toFixed2 h (total_of h (earnings s))"
proof (intro conjI impI)
  assume "\<forall>e\<in>set es. \<not> isNaN (amount e)"
  then show "total_of h es = sum_amounts h (Fin 0) es"
    by (simp add: total_of_def total_left_to_right)
next
  assume "(\<forall>e\<in>set es. is_finite (amount e)) \<and>
    (\<forall>k\<le>length es. rounding h (amount_sum (take k es)) = Fin (amount_sum (take k es)))"
  then show "total_of h es = Fin (amount_sum es)"
    by (simp add: total_exact)
next
  assume "\<bar>x\<bar> < 10 ^ 21"
  then show "\<exists>n. toFixed2 h (Fin x)
             = (if x < 0 then ''-'' else []) @ digits (n div 100) @ ''.''
                 @ digits (n mod 100 div 10) @ digits (n mod 10) \<and>
           \<bar>of_nat n / 100 - \<bar>x\<bar>\<bar> \<le> 1 / 200"
    by (rule toFixed2_two_places)
next
  assume "0 < pageSize s"
  then show "length (paginated h s) \<le> nat (pageSize s)"
    and "mset (paginated h s) \<subseteq># mset (earnings s)"
    by (rule page_of_ledger)+
qed (simp_all add: EarningsList_def App_list_def App_basic_list_def EarningsList_basic_def)

theorem total_scope_witness:
  "total_of plain_host [second_entry, first_entry] = Fin 2050 \<and>
   sum_amounts plain_host (Fin 0) [second_entry, first_entry] = Fin 2050 \<and>
   toFixed2 plain_host (Fin 2050) = ''2050.00'' \<and>
   length (paginated plain_host third_page) \<le> 5 \<and>
   mset (paginated plain_host third_page) \<subseteq># mset (earnings third_page)"
proof -
  have a: "\<forall>e\<in>set [second_entry, first_entry]. \<not> isNaN (amount e)"
    by (simp add: sample_defs)
  have b: "(\<forall>e\<in>set [second_entry, first_entry]. is_finite (amount e)) \<and>
    (\<forall>k\<le>length [second_entry, first_entry].
       rounding plain_host (amount_sum (take k [second_entry, first_entry]))
         = Fin (amount_sum (take k [second_entry, first_entry])))"
    by (simp add: sample_defs plain_host_def)
  have c: "0 < pageSize third_page" by (simp add: third_page_facts)
  note t = total_scope [of plain_host "[second_entry, first_entry]" 2050 third_page]
  from t b have 1: "total_of plain_host [second_entry, first_entry]
      = Fin (amount_sum [second_entry, first_entry])"
    by blast
  from t a have 2: "total_of plain_host [second_entry, first_entry]
      = sum_amounts plain_host (Fin 0) [second_entry, first_entry]"
    by blast
  from t c have 3: "length (paginated plain_host third_page) \<le> nat (pageSize third_page)"
    and 4: "mset (paginated plain_host third_page) \<subseteq># mset (earnings third_page)"
    by blast+
  have s: "amount_sum [second_entry, first_entry] = 2050"
    by (simp add: amount_sum_def sample_defs)
  from 1 2 3 4 toFixed2_2050 show ?thesis
    by (simp add: s third_page_facts)
qed

end
